theory Spec2Isabelle
  imports Complex_Main "HOL-Library.Word"
begin

section \<open>Real-time captioning pipeline of Lyric-App-main/app.py\<close>

text \<open>
  The development embeds the capture callback, the Segmenter loop, the STT worker loop and the
  SRT writer of \<^verbatim>\<open>src/Lyric-App-main/app.py\<close>.

  Conventions of the embedding:
  \<^item> A Python \<^verbatim>\<open>float\<close> timestamp (\<^verbatim>\<open>time.time()\<close>) is the real number it denotes.
    The Segmenter's differences and spans of timestamps are taken exactly. The product
    \<^verbatim>\<open>ts * 1000\<close> of the subtitle formatter, whose truncation decides the digits printed,
    is rounded as IEEE 754 binary64 multiplication rounds it. Timestamps are finite and
    their product with 1000 stays below the binary64 overflow threshold, on which
    \<^verbatim>\<open>int\<close> would raise.
  \<^item> Python \<^verbatim>\<open>int\<close> is \<^typ>\<open>int\<close>; an \<^verbatim>\<open>int16\<close> sample is a \<^typ>\<open>16 word\<close>.
  \<^item> \<^verbatim>\<open>queue.Queue\<close> is a record of its \<^verbatim>\<open>maxsize\<close> and its items, oldest first;
    \<^verbatim>\<open>queue.Full\<close> is the \<open>None\<close> result of \<open>put_nowait\<close>.
  \<^item> The \<^verbatim>\<open>logging\<close> module is a list of emitted records, oldest first. The root logger
    is configured at level INFO, so \<^verbatim>\<open>logging.debug\<close> emits nothing.
  \<^item> A thread's \<^verbatim>\<open>while not self._stop.is_set()\<close> loop is a fold over the outcomes of its
    successive blocking \<^verbatim>\<open>get(timeout=...)\<close> calls up to the moment the stop flag is seen:
    \<open>None\<close> for \<^verbatim>\<open>queue.Empty\<close>, \<open>Some x\<close> for a popped item.
  \<^item> The file system is a map from path to content; opening a file is taken to succeed.
  \<^item> The voice-activity classifier of \<^verbatim>\<open>webrtcvad\<close> is a parameter: a total function
    from a chunk of samples to a boolean. The capturer delivers blocks of the configured
    size only, so the classifier's rejection of other sizes is not a branch of the model.
\<close>

subsection \<open>Python helpers\<close>

text \<open>\<^verbatim>\<open>int(x)\<close> on a float truncates toward zero.\<close>

definition py_int :: "real \<Rightarrow> int" where
  "py_int x = (if 0 \<le> x then \<lfloor>x\<rfloor> else \<lceil>x\<rceil>)"

definition digit_char :: "nat \<Rightarrow> char" where
  "digit_char d = ''0123456789'' ! d"

text \<open>\<^verbatim>\<open>str(n)\<close> for a non-negative integer: its decimal digits, most significant first.\<close>

fun str_nat :: "nat \<Rightarrow> string" where
  "str_nat n = (if n < 10 then [digit_char n] else str_nat (n div 10) @ [digit_char (n mod 10)])"

declare str_nat.simps [simp del]

definition str_int :: "int \<Rightarrow> string" where
  "str_int i = (if i < 0 then CHR ''-'' # str_nat (nat (- i)) else str_nat (nat i))"

definition zfill :: "nat \<Rightarrow> string \<Rightarrow> string" where
  "zfill w s = replicate (w - length s) CHR ''0'' @ s"

text \<open>
  The format specification \<^verbatim>\<open>{i:0w}\<close> on an integer: sign-aware zero padding to a minimum
  width \<open>w\<close>.
\<close>

definition format_0w :: "nat \<Rightarrow> int \<Rightarrow> string" where
  "format_0w w i =
     (if i < 0 then CHR ''-'' # zfill (w - 1) (str_nat (nat (- i))) else zfill w (str_nat (nat i)))"

text \<open>\<^verbatim>\<open>a or b\<close> on an optional float: \<^verbatim>\<open>None\<close> and \<^verbatim>\<open>0.0\<close> are both falsy.\<close>

definition py_or :: "real option \<Rightarrow> real \<Rightarrow> real" where
  "py_or a b = (case a of None \<Rightarrow> b | Some v \<Rightarrow> if v = 0 then b else v)"

subsection \<open>Binary64 multiplication\<close>

text \<open>\<^verbatim>\<open>int.bit_length\<close>: the number of binary digits of a non-negative integer.\<close>

fun bit_length :: "nat \<Rightarrow> nat" where
  "bit_length n = (if n = 0 then 0 else Suc (bit_length (n div 2)))"

declare bit_length.simps [simp del]

definition pow2 :: "int \<Rightarrow> real" where
  "pow2 k = (if 0 \<le> k then 2 ^ nat k else 1 / 2 ^ nat (- k))"

text \<open>The exponent \<open>e\<close> with \<open>2 ^ e \<le> x < 2 ^ (e + 1)\<close>, for a positive \<open>x\<close>.\<close>

definition binade :: "real \<Rightarrow> int" where
  "binade x = (if 1 \<le> x then int (bit_length (nat \<lfloor>x\<rfloor>)) - 1
               else - int (bit_length (nat (\<lceil>1 / x\<rceil> - 1))))"

text \<open>Rounding to the nearest integer, a tie going to the even neighbour.\<close>

definition round_half_even :: "real \<Rightarrow> int" where
  "round_half_even r =
     (let f = \<lfloor>r\<rfloor>; d = r - real_of_int f
      in if d < 1 / 2 then f else if 1 / 2 < d then f + 1 else if even f then f else f + 1)"

text \<open>
  Rounding of a real to binary64 in the default mode (to nearest, ties to even): the
  significand has 53 bits, so the unit in the last place of \<open>x\<close> is \<open>2 ^ (binade x - 52)\<close>,
  and not below \<open>2 ^ - 1074\<close>, the spacing of the subnormal numbers.
\<close>

definition b64_round :: "real \<Rightarrow> real" where
  "b64_round x =
     (if x = 0 then 0
      else let u = max (- 1074) (binade \<bar>x\<bar> - 52)
           in sgn x * real_of_int (round_half_even (\<bar>x\<bar> / pow2 u)) * pow2 u)"

text \<open>The float product \<^verbatim>\<open>a * b\<close>: the exact product, rounded.\<close>

definition fmul :: "real \<Rightarrow> real \<Rightarrow> real" where
  "fmul a b = b64_round (a * b)"

subsection \<open>Logging and bounded queues\<close>

datatype level = INFO | WARNING | ERROR

type_synonym log_record = "level \<times> string"

record 'a queue =
  maxsize :: int
  items :: "'a list"

text \<open>
  \<^verbatim>\<open>Queue.put_nowait\<close>: raises \<^verbatim>\<open>queue.Full\<close> when \<^verbatim>\<open>maxsize > 0\<close> and the queue holds
  at least \<^verbatim>\<open>maxsize\<close> items; a \<^verbatim>\<open>maxsize\<close> of zero or less is an unbounded queue.
\<close>

definition full :: "'a queue \<Rightarrow> bool" where
  "full q = (0 < maxsize q \<and> maxsize q \<le> int (length (items q)))"

definition put_nowait :: "'a \<Rightarrow> 'a queue \<Rightarrow> 'a queue option" where
  "put_nowait x q = (if full q then None else Some (q\<lparr>items := items q @ [x]\<rparr>))"

subsection \<open>AudioSegment\<close>

type_synonym pcm = "16 word list"

type_synonym frame = "real \<times> pcm"

record AudioSegment =
  start_time :: real
  end_time :: "real option"
  samples :: "pcm list"

definition append_chunk :: "pcm \<Rightarrow> AudioSegment \<Rightarrow> AudioSegment" where
  "append_chunk pcm_chunk seg = seg\<lparr>samples := samples seg @ [pcm_chunk]\<rparr>"

text \<open>\<^verbatim>\<open>ndarray.tobytes()\<close> of an int16 array, little-endian.\<close>

definition tobytes :: "pcm \<Rightarrow> 8 word list" where
  "tobytes xs = concat (map (\<lambda>w. [ucast w, ucast (drop_bit 8 w)]) xs)"

definition get_pcm_bytes :: "AudioSegment \<Rightarrow> 8 word list" where
  "get_pcm_bytes seg = (if samples seg = [] then [] else tobytes (concat (samples seg)))"

subsection \<open>RealTimeCapturer.\_callback\<close>

record RealTimeCapturer =
  channels :: int
  q :: "frame queue"
  cap_logged :: "log_record list"

text \<open>
  \<^verbatim>\<open>indata\<close> has one row per sample instant and one column per channel. With several
  channels each row is averaged and cast to int16 (truncation toward zero); with one
  channel the array is flattened.
\<close>

definition to_mono :: "int \<Rightarrow> 16 word list list \<Rightarrow> pcm" where
  "to_mono chans indata =
     (if chans > 1
      then map (\<lambda>row. word_of_int (py_int (real_of_int (sum_list (map sint row)) / real (length row)))) indata
      else concat indata)"

text \<open>
  \<open>now\<close> is the value returned by \<^verbatim>\<open>time.time()\<close>. The \<^verbatim>\<open>status\<close> branch only calls
  \<^verbatim>\<open>logging.debug\<close>.
\<close>

definition callback :: "16 word list list \<Rightarrow> real \<Rightarrow> RealTimeCapturer \<Rightarrow> RealTimeCapturer" where
  "callback indata now c =
     (let mono = to_mono (channels c) indata;
          ts = now
      in case put_nowait (ts, mono) (q c) of
           Some q' \<Rightarrow> c\<lparr>q := q'\<rparr>
         | None \<Rightarrow> c\<lparr>cap_logged := cap_logged c @ [(WARNING, ''Audio queue full; dropping audio frame.'')]\<rparr>)"

subsection \<open>Segmenter\<close>

datatype error = ZeroDivisionError

record Segmenter =
  block_duration_ms :: int
  min_frames :: int
  max_silence_frames :: int
  segment_timeout_s :: int

text \<open>
  \<^verbatim>\<open>Segmenter.__init__\<close>; \<open>block_ms\<close> is \<^verbatim>\<open>capturer.block_duration_ms\<close>. The true division
  raises on a zero divisor.
\<close>

definition Segmenter_init :: "int \<Rightarrow> int \<Rightarrow> int \<Rightarrow> int \<Rightarrow> error + Segmenter" where
  "Segmenter_init block_ms min_speech_ms max_silence_ms timeout_s =
     (if block_ms = 0 then Inl ZeroDivisionError
      else Inr \<lparr>block_duration_ms = block_ms,
                min_frames = max 1 \<lceil>real_of_int min_speech_ms / real_of_int block_ms\<rceil>,
                max_silence_frames = max 1 \<lceil>real_of_int max_silence_ms / real_of_int block_ms\<rceil>,
                segment_timeout_s = timeout_s\<rparr>)"

text \<open>The local variables of \<^verbatim>\<open>Segmenter.run\<close>, the output queue and the log.\<close>

record seg_state =
  cur_segment :: "AudioSegment option"
  speech_frame_count :: int
  silence_frame_count :: int
  last_activity :: "real option"
  out_queue :: "AudioSegment queue"
  logged :: "log_record list"

definition init_state :: "AudioSegment queue \<Rightarrow> seg_state" where
  "init_state oq = \<lparr>cur_segment = None, speech_frame_count = 0, silence_frame_count = 0,
                    last_activity = None, out_queue = oq, logged = []\<rparr>"

text \<open>\<^verbatim>\<open>try: self.out_queue.put_nowait(seg) except queue.Full: logging.warning(msg)\<close>\<close>

definition try_put :: "string \<Rightarrow> AudioSegment \<Rightarrow> seg_state \<Rightarrow> seg_state" where
  "try_put msg seg st =
     (case put_nowait seg (out_queue st) of
        Some q' \<Rightarrow> st\<lparr>out_queue := q'\<rparr>
      | None \<Rightarrow> st\<lparr>logged := logged st @ [(WARNING, msg)]\<rparr>)"

definition reset :: "seg_state \<Rightarrow> seg_state" where
  "reset st = st\<lparr>cur_segment := None, speech_frame_count := 0, silence_frame_count := 0,
                 last_activity := None\<rparr>"

text \<open>The branch taken when \<^verbatim>\<open>silence_frame_count >= self.max_silence_frames\<close>.\<close>

definition silence_end :: "Segmenter \<Rightarrow> real \<Rightarrow> AudioSegment \<Rightarrow> seg_state \<Rightarrow> seg_state" where
  "silence_end sg ts seg st =
     (let e = py_or (last_activity st) ts;
          seg' = seg\<lparr>end_time := Some e\<rparr>;
          duration_ms = (e - start_time seg') * 1000
      in reset (if real_of_int (min_frames sg * block_duration_ms sg) \<le> duration_ms
                then try_put ''Out queue full; dropping segment.'' seg' st
                else st))"

text \<open>The branch taken when \<^verbatim>\<open>(ts - cur_segment.start_time) > self.segment_timeout_s\<close>.\<close>

definition force_flush :: "real \<Rightarrow> AudioSegment \<Rightarrow> seg_state \<Rightarrow> seg_state" where
  "force_flush ts seg st =
     reset (try_put ''Out queue full; dropping long segment.'' (seg\<lparr>end_time := Some ts\<rparr>) st)"

text \<open>
  The bookkeeping done for every frame that arrives while a segment is open: the segment
  with the frame appended is stored, and the counters and \<^verbatim>\<open>last_activity\<close> are updated.
\<close>

definition note_frame :: "bool \<Rightarrow> real \<Rightarrow> AudioSegment \<Rightarrow> seg_state \<Rightarrow> seg_state" where
  "note_frame is_speech ts seg st =
     (if is_speech
      then st\<lparr>cur_segment := Some seg, speech_frame_count := speech_frame_count st + 1,
              silence_frame_count := 0, last_activity := Some ts\<rparr>
      else st\<lparr>cur_segment := Some seg, silence_frame_count := silence_frame_count st + 1\<rparr>)"

text \<open>
  One pass of the loop body for a frame taken from the capture queue. \<open>vad\<close> is the
  classifier \<^verbatim>\<open>capturer.vad.is_speech\<close> at the capturer's sample rate.
\<close>

definition process_frame :: "Segmenter \<Rightarrow> (pcm \<Rightarrow> bool) \<Rightarrow> frame \<Rightarrow> seg_state \<Rightarrow> seg_state" where
  "process_frame sg vad fr st =
     (let ts = fst fr; pcm = snd fr; is_speech = vad pcm
      in case cur_segment st of
           None \<Rightarrow>
             if is_speech
             then st\<lparr>cur_segment := Some (append_chunk pcm \<lparr>start_time = ts, end_time = None, samples = []\<rparr>),
                     speech_frame_count := 1, silence_frame_count := 0, last_activity := Some ts\<rparr>
             else st
         | Some cur \<Rightarrow>
             let seg = append_chunk pcm cur;
                 noted = note_frame is_speech ts seg st
             in if max_silence_frames sg \<le> silence_frame_count noted then silence_end sg ts seg noted
                else if real_of_int (segment_timeout_s sg) < ts - start_time seg then force_flush ts seg noted
                else noted)"

definition Segmenter_iter :: "Segmenter \<Rightarrow> (pcm \<Rightarrow> bool) \<Rightarrow> frame option \<Rightarrow> seg_state \<Rightarrow> seg_state" where
  "Segmenter_iter sg vad got st = (case got of None \<Rightarrow> st | Some fr \<Rightarrow> process_frame sg vad fr st)"

definition Segmenter_loop :: "Segmenter \<Rightarrow> (pcm \<Rightarrow> bool) \<Rightarrow> frame option list \<Rightarrow> seg_state \<Rightarrow> seg_state" where
  "Segmenter_loop sg vad gets st = fold (Segmenter_iter sg vad) gets st"

definition Segmenter_run :: "Segmenter \<Rightarrow> (pcm \<Rightarrow> bool) \<Rightarrow> frame option list \<Rightarrow> AudioSegment queue \<Rightarrow> log_record list \<Rightarrow> seg_state" where
  "Segmenter_run sg vad gets oq lg =
     (let st0 = (init_state oq)\<lparr>logged := lg @ [(INFO, ''Segmenter thread started.'')]\<rparr>;
          st = Segmenter_loop sg vad gets st0
      in st\<lparr>logged := logged st @ [(INFO, ''Segmenter thread stopping.'')]\<rparr>)"

text \<open>The frames among the outcomes of the \<^verbatim>\<open>get\<close> calls, in arrival order.\<close>

fun arrived :: "'a option list \<Rightarrow> 'a list" where
  "arrived [] = []"
| "arrived (None # gs) = arrived gs"
| "arrived (Some x # gs) = x # arrived gs"

subsection \<open>Sample inputs\<close>

text \<open>
  Inputs for the worked examples below: the shipped configuration
  (\<^verbatim>\<open>block_duration\<close> 30, \<^verbatim>\<open>min_speech_ms\<close> 250, \<^verbatim>\<open>max_silence_ms\<close> 700,
  \<^verbatim>\<open>segment_timeout_s\<close> 10, segment queue of size 50), a classifier that calls a chunk
  speech when some sample is non-zero, one chunk of each kind, and a run of \<open>n\<close> silent
  frames 30 ms apart starting at time \<open>t\<close>.
\<close>

definition default_segmenter :: Segmenter where
  "default_segmenter = \<lparr>block_duration_ms = 30, min_frames = 9, max_silence_frames = 24,
                          segment_timeout_s = 10\<rparr>"

definition segments_queue :: "AudioSegment queue" where
  "segments_queue = \<lparr>maxsize = 50, items = []\<rparr>"

definition energy_vad :: "pcm \<Rightarrow> bool" where
  "energy_vad p = (p \<noteq> replicate (length p) 0)"

definition speech_chunk :: pcm where
  "speech_chunk = [1200, - 800]"

definition silent_chunk :: pcm where
  "silent_chunk = [0, 0]"

fun silence_run :: "real \<Rightarrow> nat \<Rightarrow> frame option list" where
  "silence_run t 0 = []"
| "silence_run t (Suc n) = Some (t, silent_chunk) # silence_run (t + 0.03) n"

text \<open>
  Two utterances under that configuration, each of two speech frames followed by 23 silent
  frames: the speech frames are 260 ms apart in the first and 270 ms apart in the second.
\<close>

definition short_talk :: "frame option list" where
  "short_talk = Some (100, speech_chunk) # Some (100.26, speech_chunk) # silence_run 100.29 23"

definition long_talk :: "frame option list" where
  "long_talk = Some (100, speech_chunk) # Some (100.27, speech_chunk) # silence_run 100.30 23"

text \<open>The same configuration with \<^verbatim>\<open>min_speech_ms\<close> raised to 20000.\<close>

definition strict_segmenter :: Segmenter where
  "strict_segmenter = \<lparr>block_duration_ms = 30, min_frames = 667, max_silence_frames = 24,
                         segment_timeout_s = 10\<rparr>"

text \<open>Queues that are full: 100 frames in the capture queue, 50 segments in the segment queue.\<close>

definition full_frame_queue :: "frame queue" where
  "full_frame_queue = \<lparr>maxsize = 100, items = replicate 100 (99, silent_chunk)\<rparr>"

definition full_segments_queue :: "AudioSegment queue" where
  "full_segments_queue =
     \<lparr>maxsize = 50,
      items = replicate 50 \<lparr>start_time = 1, end_time = Some 2, samples = [speech_chunk]\<rparr>\<rparr>"

subsection \<open>SRTWriter\<close>

type_synonym filesystem = "string \<rightharpoonup> string"

record SRTWriter =
  filename :: string

text \<open>\<^verbatim>\<open>open(filename, "w")\<close> followed by \<^verbatim>\<open>f.write("")\<close>.\<close>

definition SRTWriter_init :: "string \<Rightarrow> filesystem \<Rightarrow> SRTWriter \<times> filesystem" where
  "SRTWriter_init fname fs = (\<lparr>filename = fname\<rparr>, fs(fname \<mapsto> []))"

definition format_timestamp :: "real \<Rightarrow> string" where
  "format_timestamp ts =
     (let total_ms = py_int (fmul ts 1000);
          ms = total_ms mod 1000;
          s = (total_ms div 1000) mod 60;
          m = (total_ms div (1000 * 60)) mod 60;
          h = (total_ms div (1000 * 60 * 60)) mod 100
      in format_0w 2 h @ '':'' @ format_0w 2 m @ '':'' @ format_0w 2 s @ '','' @ format_0w 3 ms)"

definition newline :: string where
  "newline = [CHR 0x0A]"

text \<open>\<^verbatim>\<open>open(filename, "a")\<close> creates a missing file and writes at the end.\<close>

definition append_file :: "string \<Rightarrow> string \<Rightarrow> filesystem \<Rightarrow> filesystem" where
  "append_file fname txt fs = fs(fname \<mapsto> (case fs fname of None \<Rightarrow> [] | Some old \<Rightarrow> old) @ txt)"

text \<open>The three \<^verbatim>\<open>f.write\<close> calls of \<^verbatim>\<open>write_entry\<close>, in order.\<close>

definition entry_text :: "int \<Rightarrow> real \<Rightarrow> real \<Rightarrow> string \<Rightarrow> string" where
  "entry_text idx start_ts end_ts text =
     (str_int idx @ newline)
     @ (format_timestamp start_ts @ '' --> '' @ format_timestamp end_ts @ newline)
     @ (text @ newline @ newline)"

definition write_entry :: "SRTWriter \<Rightarrow> int \<Rightarrow> real \<Rightarrow> real \<Rightarrow> string \<Rightarrow> filesystem \<Rightarrow> filesystem" where
  "write_entry w idx start_ts end_ts text fs =
     append_file (filename w) (entry_text idx start_ts end_ts text) fs"

subsection \<open>STTWorker\<close>

text \<open>
  A backend maps PCM bytes and a sample rate to a text and a confidence, or raises; the
  raised exception is carried as its message.
\<close>

type_synonym STTBackend = "8 word list \<Rightarrow> int \<Rightarrow> string + (string \<times> real)"

text \<open>
  The worker's sequence counter, the texts passed to \<^verbatim>\<open>ui_callback\<close> so far, the file
  system written through \<^verbatim>\<open>srt_writer\<close>, and the log.
\<close>

record worker_state =
  seq :: int
  ui_calls :: "string list"
  files :: filesystem
  wlogged :: "log_record list"

definition STTWorker_init :: "filesystem \<Rightarrow> worker_state" where
  "STTWorker_init fs = \<lparr>seq = 1, ui_calls = [], files = fs, wlogged = []\<rparr>"

definition process_segment :: "STTBackend \<Rightarrow> int \<Rightarrow> SRTWriter \<Rightarrow> AudioSegment \<Rightarrow> worker_state \<Rightarrow> worker_state" where
  "process_segment stt sample_rate srt seg w =
     (let pcm_bytes = get_pcm_bytes seg;
          (text, w1) = (case stt pcm_bytes sample_rate of
                          Inr (t, conf) \<Rightarrow> (t, w)
                        | Inl e \<Rightarrow> ([], w\<lparr>wlogged := wlogged w @ [(ERROR, ''STT backend error: '' @ e)]\<rparr>))
      in if text \<noteq> []
         then w1\<lparr>ui_calls := ui_calls w1 @ [text],
                 files := write_entry srt (seq w1) (start_time seg) (py_or (end_time seg) (start_time seg)) text (files w1),
                 seq := seq w1 + 1\<rparr>
         else w1)"

definition STTWorker_iter :: "STTBackend \<Rightarrow> int \<Rightarrow> SRTWriter \<Rightarrow> AudioSegment option \<Rightarrow> worker_state \<Rightarrow> worker_state" where
  "STTWorker_iter stt sample_rate srt got w =
     (case got of None \<Rightarrow> w | Some seg \<Rightarrow> process_segment stt sample_rate srt seg w)"

definition STTWorker_loop :: "STTBackend \<Rightarrow> int \<Rightarrow> SRTWriter \<Rightarrow> AudioSegment option list \<Rightarrow> worker_state \<Rightarrow> worker_state" where
  "STTWorker_loop stt sample_rate srt gets w = fold (STTWorker_iter stt sample_rate srt) gets w"


subsection \<open>Sample backends and segments\<close>

text \<open>
  A backend that raises on every call, a backend that raises on less than 8 bytes of audio
  and answers \<open>hello\<close> otherwise, and segments of one and of two chunks.
\<close>

definition failing_backend :: STTBackend where
  "failing_backend pcm_bytes sample_rate = Inl ''model unavailable''"

definition picky_backend :: STTBackend where
  "picky_backend pcm_bytes sample_rate =
     (if length pcm_bytes < 8 then Inl ''audio too short'' else Inr (''hello'', 0.5))"

definition one_chunk_segment :: AudioSegment where
  "one_chunk_segment = \<lparr>start_time = 90, end_time = Some 90.5, samples = [speech_chunk]\<rparr>"

definition two_chunk_segment :: AudioSegment where
  "two_chunk_segment = \<lparr>start_time = 100, end_time = Some 100.27, samples = [speech_chunk, speech_chunk]\<rparr>"

subsection \<open>Sample timestamps\<close>

text \<open>
  The binary64 values nearest to 4.35 and to 1762300000.123, the second being a reading of
  \<^verbatim>\<open>time.time()\<close>.
\<close>

definition ts_4_35 :: real where
  "ts_4_35 = 2448832297382707 / 2 ^ 49"

definition ts_epoch :: real where
  "ts_epoch = 7391621939715899 / 2 ^ 22"

section \<open>Verified properties\<close>

subsection \<open>Segmenter: one frame\<close>

lemma init_default: "Segmenter_init 30 250 700 10 = Inr default_segmenter"
  by (simp add: Segmenter_init_def default_segmenter_def)

lemma process_frame_idle:
  "cur_segment st = None \<Longrightarrow>
   process_frame sg vad (ts, pcm) st =
     (if vad pcm
      then st\<lparr>cur_segment := Some \<lparr>start_time = ts, end_time = None, samples = [pcm]\<rparr>,
              speech_frame_count := 1, silence_frame_count := 0, last_activity := Some ts\<rparr>
      else st)"
  by (simp add: process_frame_def append_chunk_def)

lemma process_frame_open:
  "cur_segment st = Some cur \<Longrightarrow>
   process_frame sg vad (ts, pcm) st =
     (if max_silence_frames sg \<le> silence_frame_count (note_frame (vad pcm) ts (append_chunk pcm cur) st)
      then silence_end sg ts (append_chunk pcm cur) (note_frame (vad pcm) ts (append_chunk pcm cur) st)
      else if real_of_int (segment_timeout_s sg) < ts - start_time cur
      then force_flush ts (append_chunk pcm cur) (note_frame (vad pcm) ts (append_chunk pcm cur) st)
      else note_frame (vad pcm) ts (append_chunk pcm cur) st)"
  by (simp add: process_frame_def Let_def append_chunk_def)

lemma try_put_fields [simp]:
  "cur_segment (try_put msg seg st) = cur_segment st"
  "speech_frame_count (try_put msg seg st) = speech_frame_count st"
  "silence_frame_count (try_put msg seg st) = silence_frame_count st"
  "last_activity (try_put msg seg st) = last_activity st"
  by (simp_all add: try_put_def split: option.split)

lemma try_put_queue:
  "out_queue (try_put msg seg st) =
     (if full (out_queue st) then out_queue st
      else (out_queue st)\<lparr>items := items (out_queue st) @ [seg]\<rparr>)"
  "logged (try_put msg seg st) =
     (if full (out_queue st) then logged st @ [(WARNING, msg)] else logged st)"
  by (simp_all add: try_put_def put_nowait_def)

lemma reset_fields [simp]:
  "cur_segment (reset st) = None"
  "speech_frame_count (reset st) = 0"
  "silence_frame_count (reset st) = 0"
  "last_activity (reset st) = None"
  "out_queue (reset st) = out_queue st"
  "logged (reset st) = logged st"
  by (simp_all add: reset_def)

lemma note_frame_fields [simp]:
  "cur_segment (note_frame b ts seg st) = Some seg"
  "out_queue (note_frame b ts seg st) = out_queue st"
  "logged (note_frame b ts seg st) = logged st"
  "silence_frame_count (note_frame b ts seg st) = (if b then 0 else silence_frame_count st + 1)"
  "last_activity (note_frame b ts seg st) = (if b then Some ts else last_activity st)"
  "speech_frame_count (note_frame b ts seg st) = (if b then speech_frame_count st + 1 else speech_frame_count st)"
  by (simp_all add: note_frame_def)

lemma threshold_covers_min_speech:
  assumes "0 < block_ms"
  shows "real_of_int min_speech_ms \<le> real_of_int (max 1 \<lceil>real_of_int min_speech_ms / real_of_int block_ms\<rceil> * block_ms)"
proof -
  have "real_of_int min_speech_ms / real_of_int block_ms \<le> real_of_int \<lceil>real_of_int min_speech_ms / real_of_int block_ms\<rceil>"
    by (rule le_of_int_ceiling)
  also have "\<dots> \<le> real_of_int (max 1 \<lceil>real_of_int min_speech_ms / real_of_int block_ms\<rceil>)"
    by simp
  finally have "real_of_int min_speech_ms \<le> real_of_int (max 1 \<lceil>real_of_int min_speech_ms / real_of_int block_ms\<rceil>) * real_of_int block_ms"
    using assms by (simp add: pos_divide_le_eq)
  then show ?thesis by simp
qed

text \<open>
  Claim C1, amended. When the silence-run condition ends an open segment, the segment (with
  its end time set) is pushed to the segment queue exactly when its span in milliseconds,
  \<open>(end_time - start_time) * 1000\<close>, is at least \<open>min_frames * block_duration_ms\<close>,
  where \<open>min_frames = max 1 (ceiling (min_speech_ms / block_duration_ms))\<close>; the push
  is non-blocking, and on a full queue the segment is dropped with a warning. Otherwise
  nothing is pushed and nothing is logged. This threshold is never below
  \<open>min_speech_ms\<close>, so a silence-ended segment with a span shorter than
  \<open>min_speech_ms\<close> is discarded. In both cases the Segmenter returns to Idle.
\<close>

theorem C1_silence_end_filter:
  assumes init: "Segmenter_init block_ms min_speech_ms max_silence_ms timeout_s = Inr sg"
    and block: "0 < block_ms"
    and opened: "cur_segment st = Some cur"
    and noted: "noted = note_frame (vad pcm) ts (append_chunk pcm cur) st"
    and fires: "max_silence_frames sg \<le> silence_frame_count noted"
    and e: "e = py_or (last_activity noted) ts"
    and thr: "thr = real_of_int (max 1 \<lceil>real_of_int min_speech_ms / real_of_int block_ms\<rceil> * block_ms)"
    and st': "st' = process_frame sg vad (ts, pcm) st"
  shows "real_of_int min_speech_ms \<le> thr
       \<and> out_queue st' =
           (if thr \<le> (e - start_time cur) * 1000 \<and> \<not> full (out_queue st)
            then (out_queue st)\<lparr>items := items (out_queue st) @ [(append_chunk pcm cur)\<lparr>end_time := Some e\<rparr>]\<rparr>
            else out_queue st)
       \<and> logged st' =
           (if thr \<le> (e - start_time cur) * 1000 \<and> full (out_queue st)
            then logged st @ [(WARNING, ''Out queue full; dropping segment.'')]
            else logged st)
       \<and> cur_segment st' = None \<and> speech_frame_count st' = 0 \<and> silence_frame_count st' = 0
       \<and> last_activity st' = None"
proof -
  from init block have sg: "min_frames sg * block_duration_ms sg = max 1 \<lceil>real_of_int min_speech_ms / real_of_int block_ms\<rceil> * block_ms"
    by (auto simp: Segmenter_init_def)
  have step: "st' = silence_end sg ts (append_chunk pcm cur) noted"
    using opened fires unfolding st' noted by (simp add: process_frame_open)
  have "real_of_int min_speech_ms \<le> thr"
    unfolding thr using block by (rule threshold_covers_min_speech)
  moreover have "out_queue st' =
           (if thr \<le> (e - start_time cur) * 1000 \<and> \<not> full (out_queue st)
            then (out_queue st)\<lparr>items := items (out_queue st) @ [(append_chunk pcm cur)\<lparr>end_time := Some e\<rparr>]\<rparr>
            else out_queue st)"
    unfolding step silence_end_def Let_def sg thr[symmetric] e[symmetric]
    by (simp add: try_put_queue noted append_chunk_def)
  moreover have "logged st' =
           (if thr \<le> (e - start_time cur) * 1000 \<and> full (out_queue st)
            then logged st @ [(WARNING, ''Out queue full; dropping segment.'')]
            else logged st)"
    unfolding step silence_end_def Let_def sg thr[symmetric] e[symmetric]
    by (simp add: try_put_queue noted append_chunk_def)
  moreover have "cur_segment st' = None \<and> speech_frame_count st' = 0 \<and> silence_frame_count st' = 0
       \<and> last_activity st' = None"
    unfolding step silence_end_def Let_def by simp
  ultimately show ?thesis by blast
qed

lemma silence_run_numeral:
  "silence_run t (numeral k) = Some (t, silent_chunk) # silence_run (t + 0.03) (pred_numeral k)"
  by (simp add: numeral_eq_Suc)

lemma replicate_numeral_unfold:
  "replicate (numeral k) x = x # replicate (pred_numeral k) x"
  by (simp add: numeral_eq_Suc)

lemma default_segmenter_fields:
  "block_duration_ms default_segmenter = 30" "min_frames default_segmenter = 9"
  "max_silence_frames default_segmenter = 24" "segment_timeout_s default_segmenter = 10"
  by (simp_all add: default_segmenter_def)

lemmas run_simps = Segmenter_loop_def Segmenter_iter_def process_frame_def note_frame_def
  silence_end_def force_flush_def reset_def try_put_def put_nowait_def full_def init_state_def
  append_chunk_def py_or_def default_segmenter_def strict_segmenter_def segments_queue_def
  energy_vad_def speech_chunk_def silent_chunk_def short_talk_def long_talk_def Let_def
  silence_run_numeral replicate_numeral_unfold

lemma long_talk_state:
  "Segmenter_loop default_segmenter energy_vad long_talk (init_state segments_queue) =
     \<lparr>cur_segment = Some \<lparr>start_time = 100, end_time = None,
                            samples = speech_chunk # speech_chunk # replicate 23 silent_chunk\<rparr>,
      speech_frame_count = 2, silence_frame_count = 23, last_activity = Some 100.27,
      out_queue = segments_queue, logged = []\<rparr>"
  by (simp add: run_simps)

lemma short_talk_state:
  "Segmenter_loop default_segmenter energy_vad short_talk (init_state segments_queue) =
     \<lparr>cur_segment = Some \<lparr>start_time = 100, end_time = None,
                            samples = speech_chunk # speech_chunk # replicate 23 silent_chunk\<rparr>,
      speech_frame_count = 2, silence_frame_count = 23, last_activity = Some 100.26,
      out_queue = segments_queue, logged = []\<rparr>"
  by (simp add: run_simps)

lemma loop_snoc:
  "Segmenter_loop sg vad (gets @ [Some fr]) st = process_frame sg vad fr (Segmenter_loop sg vad gets st)"
  by (simp add: Segmenter_loop_def Segmenter_iter_def)

theorem C1_silence_end_filter_witness:
  "Segmenter_init 30 250 700 10 = Inr default_segmenter \<and> (0::int) < 30
   \<and> cur_segment (Segmenter_loop default_segmenter energy_vad long_talk (init_state segments_queue)) \<noteq> None
   \<and> out_queue (Segmenter_loop default_segmenter energy_vad (long_talk @ [Some (100.99, silent_chunk)])
        (init_state segments_queue)) =
       \<lparr>maxsize = 50,
        items = [\<lparr>start_time = 100, end_time = Some 100.27,
                  samples = speech_chunk # speech_chunk # replicate 24 silent_chunk\<rparr>]\<rparr>"
proof -
  let ?st = "Segmenter_loop default_segmenter energy_vad long_talk (init_state segments_queue)"
  let ?seg0 = "\<lparr>start_time = 100, end_time = None,
                samples = speech_chunk # speech_chunk # replicate 23 silent_chunk\<rparr>"
  have i: "Segmenter_init 30 250 700 10 = Inr default_segmenter"
    by (rule init_default)
  have o: "cur_segment ?st = Some ?seg0"
    by (simp add: long_talk_state)
  have f: "max_silence_frames default_segmenter
             \<le> silence_frame_count (note_frame (energy_vad silent_chunk) 100.99 (append_chunk silent_chunk ?seg0) ?st)"
    by (simp add: long_talk_state default_segmenter_fields energy_vad_def silent_chunk_def)
  have "out_queue (process_frame default_segmenter energy_vad (100.99, silent_chunk) ?st) =
          \<lparr>maxsize = 50,
           items = [\<lparr>start_time = 100, end_time = Some 100.27,
                     samples = speech_chunk # speech_chunk # replicate 24 silent_chunk\<rparr>]\<rparr>"
    using C1_silence_end_filter[where vad = energy_vad and pcm = silent_chunk and ts = "100.99"
        and st = ?st and cur = ?seg0, OF i _ o refl f refl refl refl]
    unfolding long_talk_state
    by (simp add: long_talk_state energy_vad_def silent_chunk_def py_or_def full_def
          segments_queue_def append_chunk_def replicate_numeral_unfold)
  then show ?thesis
    using i o by (simp add: loop_snoc)
qed

text \<open>
  Under the shipped configuration \<open>min_frames * block_duration_ms\<close> is 270. A segment
  whose speech frames are 260 ms apart is closed by the 24th silent frame with a span of
  260 ms, which is at least \<open>min_speech_ms = 250\<close>, and is not pushed.
\<close>

theorem C1_counterexample:
  "Segmenter_init 30 250 700 10 = Inr default_segmenter
   \<and> Segmenter_loop default_segmenter energy_vad short_talk (init_state segments_queue) =
       \<lparr>cur_segment = Some \<lparr>start_time = 100, end_time = None,
                              samples = speech_chunk # speech_chunk # replicate 23 silent_chunk\<rparr>,
        speech_frame_count = 2, silence_frame_count = 23, last_activity = Some 100.26,
        out_queue = segments_queue, logged = []\<rparr>
   \<and> (250::real) \<le> (100.26 - 100) * 1000
   \<and> Segmenter_loop default_segmenter energy_vad (short_talk @ [Some (100.98, silent_chunk)])
        (init_state segments_queue) = init_state segments_queue"
  by (simp add: init_default short_talk_state loop_snoc)
     (simp add: run_simps)


text \<open>
  Claim C3. A frame arrives while a segment is open and the silence-run condition does not
  hold after the frame has been counted. If the frame's timestamp minus the segment's start
  time exceeds \<open>segment_timeout_s\<close>, the segment, with the frame appended and the end
  time set to the frame's timestamp, is pushed to the segment queue (non-blocking: dropped
  with a warning when the queue is full), whatever \<open>min_frames\<close> is and whether the frame
  is speech or silence, and the Segmenter returns to Idle.
\<close>

theorem C3_forced_flush:
  assumes opened: "cur_segment st = Some cur"
    and noted: "noted = note_frame (vad pcm) ts (append_chunk pcm cur) st"
    and quiet: "\<not> max_silence_frames sg \<le> silence_frame_count noted"
    and late: "real_of_int (segment_timeout_s sg) < ts - start_time cur"
    and st': "st' = process_frame sg vad (ts, pcm) st"
  shows "out_queue st' =
           (if full (out_queue st) then out_queue st
            else (out_queue st)\<lparr>items := items (out_queue st) @ [(append_chunk pcm cur)\<lparr>end_time := Some ts\<rparr>]\<rparr>)
       \<and> logged st' =
           (if full (out_queue st) then logged st @ [(WARNING, ''Out queue full; dropping long segment.'')]
            else logged st)
       \<and> cur_segment st' = None \<and> speech_frame_count st' = 0 \<and> silence_frame_count st' = 0
       \<and> last_activity st' = None"
proof -
  have "st' = force_flush ts (append_chunk pcm cur) noted"
    using opened quiet late unfolding st' noted by (simp add: process_frame_open)
  then show ?thesis
    by (simp add: force_flush_def try_put_queue noted)
qed

theorem C3_forced_flush_witness:
  "cur_segment (Segmenter_loop strict_segmenter energy_vad [Some (100, speech_chunk)] (init_state segments_queue))
     = Some \<lparr>start_time = 100, end_time = None, samples = [speech_chunk]\<rparr>
   \<and> real_of_int (segment_timeout_s strict_segmenter) < 110.5 - 100
   \<and> (110.5 - 100) * 1000 < real_of_int (min_frames strict_segmenter * block_duration_ms strict_segmenter)
   \<and> Segmenter_loop strict_segmenter energy_vad [Some (100, speech_chunk), Some (110.5, speech_chunk)]
        (init_state segments_queue) =
       init_state \<lparr>maxsize = 50,
                   items = [\<lparr>start_time = 100, end_time = Some 110.5, samples = [speech_chunk, speech_chunk]\<rparr>]\<rparr>"
proof -
  let ?st = "Segmenter_loop strict_segmenter energy_vad [Some (100, speech_chunk)] (init_state segments_queue)"
  let ?cur = "\<lparr>start_time = 100, end_time = None, samples = [speech_chunk]\<rparr>"
  have st: "?st = \<lparr>cur_segment = Some ?cur, speech_frame_count = 1, silence_frame_count = 0,
                    last_activity = Some 100, out_queue = segments_queue, logged = []\<rparr>"
    by (simp add: Segmenter_loop_def Segmenter_iter_def init_state_def process_frame_idle
          energy_vad_def speech_chunk_def)
  have o: "cur_segment ?st = Some ?cur"
    by (simp add: st)
  have fields: "max_silence_frames strict_segmenter = 24" "segment_timeout_s strict_segmenter = 10"
    "min_frames strict_segmenter = 667" "block_duration_ms strict_segmenter = 30"
    by (simp_all add: strict_segmenter_def)
  have sp: "energy_vad speech_chunk"
    by (simp add: energy_vad_def speech_chunk_def)
  have q: "\<not> max_silence_frames strict_segmenter
             \<le> silence_frame_count (note_frame (energy_vad speech_chunk) 110.5 (append_chunk speech_chunk ?cur) ?st)"
    by (simp add: fields sp)
  have l: "real_of_int (segment_timeout_s strict_segmenter) < 110.5 - start_time ?cur"
    by (simp add: fields)
  have fl: "Segmenter_loop strict_segmenter energy_vad [Some (100, speech_chunk), Some (110.5, speech_chunk)]
              (init_state segments_queue) = process_frame strict_segmenter energy_vad (110.5, speech_chunk) ?st"
    by (simp add: Segmenter_loop_def Segmenter_iter_def)
  have "process_frame strict_segmenter energy_vad (110.5, speech_chunk) ?st =
          init_state \<lparr>maxsize = 50,
                   items = [\<lparr>start_time = 100, end_time = Some 110.5, samples = [speech_chunk, speech_chunk]\<rparr>]\<rparr>"
    using C3_forced_flush[where vad = energy_vad and pcm = speech_chunk and ts = "110.5"
        and st = ?st and cur = ?cur and sg = strict_segmenter, OF o refl q l refl]
    unfolding st
    by (simp add: init_state_def full_def segments_queue_def append_chunk_def seg_state.equality)
  then show ?thesis
    using o l unfolding fl by (simp add: fields)
qed

text \<open>
  Claim C5, amended. When a frame arrives for an open segment and both the silence-run
  condition and the timeout condition hold, the outcome is that of the silence branch and
  not that of the forced flush: the end time is the last speech timestamp (stated for a
  non-zero timestamp), the segment is pushed only when its span in milliseconds is at least
  \<open>min_frames * block_duration_ms\<close>, and the Segmenter returns to Idle.
\<close>

theorem C5_silence_end_first:
  assumes opened: "cur_segment st = Some cur"
    and noted: "noted = note_frame (vad pcm) ts (append_chunk pcm cur) st"
    and fires: "max_silence_frames sg \<le> silence_frame_count noted"
    and late: "real_of_int (segment_timeout_s sg) < ts - start_time cur"
    and la: "last_activity noted = Some v" "v \<noteq> 0"
    and st': "st' = process_frame sg vad (ts, pcm) st"
  shows "out_queue st' =
           (if real_of_int (min_frames sg * block_duration_ms sg) \<le> (v - start_time cur) * 1000
               \<and> \<not> full (out_queue st)
            then (out_queue st)\<lparr>items := items (out_queue st) @ [(append_chunk pcm cur)\<lparr>end_time := Some v\<rparr>]\<rparr>
            else out_queue st)
       \<and> logged st' =
           (if real_of_int (min_frames sg * block_duration_ms sg) \<le> (v - start_time cur) * 1000
               \<and> full (out_queue st)
            then logged st @ [(WARNING, ''Out queue full; dropping segment.'')]
            else logged st)
       \<and> cur_segment st' = None \<and> speech_frame_count st' = 0 \<and> silence_frame_count st' = 0
       \<and> last_activity st' = None"
proof -
  have e: "py_or (last_activity noted) ts = v"
    using la by (simp add: py_or_def)
  have "st' = silence_end sg ts (append_chunk pcm cur) noted"
    using opened fires unfolding st' noted by (simp add: process_frame_open)
  then show ?thesis
    unfolding silence_end_def Let_def e
    by (simp add: try_put_queue noted append_chunk_def)
qed

theorem C5_silence_end_first_witness:
  "cur_segment (Segmenter_loop default_segmenter energy_vad long_talk (init_state segments_queue)) \<noteq> None
   \<and> max_silence_frames default_segmenter \<le> 23 + 1
   \<and> real_of_int (segment_timeout_s default_segmenter) < 111 - 100
   \<and> out_queue (Segmenter_loop default_segmenter energy_vad (long_talk @ [Some (111, silent_chunk)])
        (init_state segments_queue)) =
       \<lparr>maxsize = 50,
        items = [\<lparr>start_time = 100, end_time = Some 100.27,
                  samples = speech_chunk # speech_chunk # replicate 24 silent_chunk\<rparr>]\<rparr>"
proof -
  let ?st = "Segmenter_loop default_segmenter energy_vad long_talk (init_state segments_queue)"
  let ?cur = "\<lparr>start_time = 100, end_time = None,
                samples = speech_chunk # speech_chunk # replicate 23 silent_chunk\<rparr>"
  have sil: "\<not> energy_vad silent_chunk"
    by (simp add: energy_vad_def silent_chunk_def)
  have o: "cur_segment ?st = Some ?cur"
    by (simp add: long_talk_state)
  have f: "max_silence_frames default_segmenter
             \<le> silence_frame_count (note_frame (energy_vad silent_chunk) 111 (append_chunk silent_chunk ?cur) ?st)"
    by (simp add: long_talk_state default_segmenter_fields sil)
  have l: "real_of_int (segment_timeout_s default_segmenter) < 111 - start_time ?cur"
    by (simp add: default_segmenter_fields)
  have a: "last_activity (note_frame (energy_vad silent_chunk) 111 (append_chunk silent_chunk ?cur) ?st) = Some 100.27"
    by (simp add: long_talk_state sil)
  have "out_queue (process_frame default_segmenter energy_vad (111, silent_chunk) ?st) =
          \<lparr>maxsize = 50,
           items = [\<lparr>start_time = 100, end_time = Some 100.27,
                     samples = speech_chunk # speech_chunk # replicate 24 silent_chunk\<rparr>]\<rparr>"
    using C5_silence_end_first[where vad = energy_vad and pcm = silent_chunk and ts = 111
        and st = ?st and cur = ?cur and sg = default_segmenter and v = "100.27", OF o refl f l a _ refl]
    unfolding long_talk_state
    by (simp add: default_segmenter_fields full_def segments_queue_def append_chunk_def
          replicate_numeral_unfold)
  then show ?thesis
    using o by (simp add: loop_snoc default_segmenter_fields)
qed

text \<open>
  The 24th silent frame arrives 11 s after the start of the segment, so both conditions
  hold. The span of 260 ms is at least \<open>min_speech_ms = 250\<close>, yet nothing is pushed:
  the filter applied is the 270 ms threshold.
\<close>

theorem C5_counterexample:
  "cur_segment (Segmenter_loop default_segmenter energy_vad short_talk (init_state segments_queue)) =
     Some \<lparr>start_time = 100, end_time = None,
            samples = speech_chunk # speech_chunk # replicate 23 silent_chunk\<rparr>
   \<and> last_activity (Segmenter_loop default_segmenter energy_vad short_talk (init_state segments_queue)) = Some 100.26
   \<and> silence_frame_count (Segmenter_loop default_segmenter energy_vad short_talk (init_state segments_queue)) = 23
   \<and> \<not> energy_vad silent_chunk
   \<and> max_silence_frames default_segmenter \<le> 23 + 1
   \<and> real_of_int (segment_timeout_s default_segmenter) < 111 - 100
   \<and> (250::real) \<le> (100.26 - 100) * 1000
   \<and> Segmenter_loop default_segmenter energy_vad (short_talk @ [Some (111, silent_chunk)])
        (init_state segments_queue) = init_state segments_queue"
  by (simp add: short_talk_state loop_snoc default_segmenter_fields)
     (simp add: run_simps)

text \<open>
  Claim C8. A push onto a full queue returns normally, leaves the queue as it was, and adds
  one warning to the log; nothing else changes. This holds for the capture callback pushing
  a frame, and for both places where the Segmenter pushes a segment, which then resets to
  Idle exactly as after a successful push.
\<close>

theorem C8_full_queue_drops:
  assumes "full (q c)" and "full (out_queue st)"
  shows "callback indata now c =
           c\<lparr>cap_logged := cap_logged c @ [(WARNING, ''Audio queue full; dropping audio frame.'')]\<rparr>
       \<and> try_put msg seg st = st\<lparr>logged := logged st @ [(WARNING, msg)]\<rparr>
       \<and> silence_end sg ts seg st =
           reset (if real_of_int (min_frames sg * block_duration_ms sg) \<le> (py_or (last_activity st) ts - start_time seg) * 1000
                  then st\<lparr>logged := logged st @ [(WARNING, ''Out queue full; dropping segment.'')]\<rparr>
                  else st)
       \<and> force_flush ts seg st =
           reset (st\<lparr>logged := logged st @ [(WARNING, ''Out queue full; dropping long segment.'')]\<rparr>)
       \<and> out_queue (process_frame sg vad fr st) = out_queue st"
proof -
  have put: "\<And>m s. try_put m s st = st\<lparr>logged := logged st @ [(WARNING, m)]\<rparr>"
    using assms(2) by (simp add: try_put_def put_nowait_def)
  have cb: "callback indata now c =
           c\<lparr>cap_logged := cap_logged c @ [(WARNING, ''Audio queue full; dropping audio frame.'')]\<rparr>"
    using assms(1) by (simp add: callback_def put_nowait_def)
  have oq: "out_queue (process_frame sg vad fr st) = out_queue st"
  proof (cases "cur_segment st")
    case None
    then show ?thesis
      using process_frame_idle[of st sg vad "fst fr" "snd fr"] by simp
  next
    case (Some cur)
    show ?thesis
      using process_frame_open[OF Some, of sg vad "fst fr" "snd fr"] assms(2)
      by (simp add: silence_end_def force_flush_def Let_def try_put_queue)
  qed
  have se: "silence_end sg ts seg st =
           reset (if real_of_int (min_frames sg * block_duration_ms sg) \<le> (py_or (last_activity st) ts - start_time seg) * 1000
                  then st\<lparr>logged := logged st @ [(WARNING, ''Out queue full; dropping segment.'')]\<rparr>
                  else st)"
    by (simp add: silence_end_def Let_def put)
  have ff: "force_flush ts seg st =
           reset (st\<lparr>logged := logged st @ [(WARNING, ''Out queue full; dropping long segment.'')]\<rparr>)"
    by (simp add: force_flush_def put)
  from cb put se ff oq show ?thesis by blast
qed

theorem C8_full_queue_drops_witness:
  "full full_frame_queue \<and> full full_segments_queue
   \<and> callback [[7], [8]] 100 \<lparr>channels = 1, q = full_frame_queue, cap_logged = []\<rparr> =
       \<lparr>channels = 1, q = full_frame_queue,
        cap_logged = [(WARNING, ''Audio queue full; dropping audio frame.'')]\<rparr>
   \<and> force_flush 110.5 \<lparr>start_time = 100, end_time = None, samples = [speech_chunk]\<rparr>
        (init_state full_segments_queue) =
       (init_state full_segments_queue)\<lparr>logged := [(WARNING, ''Out queue full; dropping long segment.'')]\<rparr>"
proof -
  have f1: "full (q \<lparr>channels = 1, q = full_frame_queue, cap_logged = []\<rparr>)"
    by (simp add: full_def full_frame_queue_def)
  have f2: "full (out_queue (init_state full_segments_queue))"
    by (simp add: full_def full_segments_queue_def init_state_def)
  show ?thesis
    using C8_full_queue_drops[OF f1 f2, of "[[7], [8]]" 100 _
        "\<lparr>start_time = 100, end_time = None, samples = [speech_chunk]\<rparr>" _ "110.5"] f1 f2
    by (simp add: init_state_def reset_def)
qed

subsection \<open>Segmenter: runs\<close>

lemma loop_Nil: "Segmenter_loop sg vad [] st = st"
  by (simp add: Segmenter_loop_def)

lemma loop_Cons_Some:
  "Segmenter_loop sg vad (Some fr # gets) st = Segmenter_loop sg vad gets (process_frame sg vad fr st)"
  by (simp add: Segmenter_loop_def Segmenter_iter_def)

lemma loop_Cons_None:
  "Segmenter_loop sg vad (None # gets) st = Segmenter_loop sg vad gets st"
  by (simp add: Segmenter_loop_def Segmenter_iter_def)

lemmas loop_simps = loop_Nil loop_Cons_Some loop_Cons_None

lemma loop_append:
  "Segmenter_loop sg vad (gets @ gets') st = Segmenter_loop sg vad gets' (Segmenter_loop sg vad gets st)"
  by (simp add: Segmenter_loop_def)

lemma silent_frames_keep_open:
  assumes "cur_segment st = Some cur"
    and "\<forall>f\<in>set fs. \<not> vad (snd f)"
    and "silence_frame_count st + int (length fs) < max_silence_frames sg"
    and "\<forall>f\<in>set fs. fst f - start_time cur \<le> real_of_int (segment_timeout_s sg)"
  shows "Segmenter_loop sg vad (map Some fs) st =
           st\<lparr>cur_segment := Some (cur\<lparr>samples := samples cur @ map snd fs\<rparr>),
              silence_frame_count := silence_frame_count st + int (length fs)\<rparr>"
  using assms
proof (induction fs arbitrary: st cur)
  case Nil
  then show ?case by (simp add: loop_Nil)
next
  case (Cons f fs)
  let ?cur = "append_chunk (snd f) cur"
  let ?st = "st\<lparr>cur_segment := Some ?cur, silence_frame_count := silence_frame_count st + 1\<rparr>"
  have quiet: "\<not> vad (snd f)" and intime: "fst f - start_time cur \<le> real_of_int (segment_timeout_s sg)"
    using Cons.prems by simp_all
  have below: "silence_frame_count st + 1 < max_silence_frames sg"
    using Cons.prems(3) by simp
  have step: "process_frame sg vad f st = ?st"
    using process_frame_open[OF Cons.prems(1), of sg vad "fst f" "snd f"] quiet intime below
    by (simp add: note_frame_def)
  have "Segmenter_loop sg vad (map Some fs) ?st =
          ?st\<lparr>cur_segment := Some (?cur\<lparr>samples := samples ?cur @ map snd fs\<rparr>),
              silence_frame_count := silence_frame_count ?st + int (length fs)\<rparr>"
  proof (rule Cons.IH)
    show "cur_segment ?st = Some ?cur" by simp
    show "\<forall>f\<in>set fs. \<not> vad (snd f)" using Cons.prems(2) by simp
    show "silence_frame_count ?st + int (length fs) < max_silence_frames sg"
      using Cons.prems(3) by simp
    show "\<forall>f\<in>set fs. fst f - start_time ?cur \<le> real_of_int (segment_timeout_s sg)"
      using Cons.prems(4) by (simp add: append_chunk_def)
  qed
  then show ?case
    by (simp add: loop_Cons_Some step append_chunk_def add.assoc)
qed

text \<open>
  Claim C4, amended. With \<open>max_silence_ms = 700\<close> and a frame duration of 30 ms the Segmenter
  computes \<open>max_silence_frames = 24\<close>. Take an open segment just after a speech frame
  (silence count 0) and feed it consecutive silent frames, none of the first 23 arriving
  after the timeout: while fewer than 24 have been appended the segment stays open, holding
  all of them, and nothing is pushed or logged; the 24th takes the silence branch, which
  closes the segment.
\<close>

theorem C4_silence_run_closes_at_24:
  assumes init: "Segmenter_init 30 min_speech_ms 700 timeout_s = Inr sg"
    and opened: "cur_segment st = Some cur"
    and fresh: "silence_frame_count st = 0"
    and silent: "\<forall>f\<in>set fs. \<not> vad (snd f)"
    and intime: "\<forall>f\<in>set (take 23 fs). fst f - start_time cur \<le> real_of_int timeout_s"
  shows "max_silence_frames sg = 24
       \<and> (length fs < 24 \<longrightarrow>
            Segmenter_loop sg vad (map Some fs) st =
              st\<lparr>cur_segment := Some (cur\<lparr>samples := samples cur @ map snd fs\<rparr>),
                 silence_frame_count := int (length fs)\<rparr>)
       \<and> (length fs = 24 \<longrightarrow>
            Segmenter_loop sg vad (map Some fs) st =
              silence_end sg (fst (last fs)) (cur\<lparr>samples := samples cur @ map snd fs\<rparr>)
                (st\<lparr>cur_segment := Some (cur\<lparr>samples := samples cur @ map snd fs\<rparr>),
                   silence_frame_count := 24\<rparr>)
            \<and> cur_segment (Segmenter_loop sg vad (map Some fs) st) = None)"
proof -
  have msf: "max_silence_frames sg = 24" and tmo: "segment_timeout_s sg = timeout_s"
    using init by (auto simp: Segmenter_init_def)
  have short: "Segmenter_loop sg vad (map Some gs) st =
                 st\<lparr>cur_segment := Some (cur\<lparr>samples := samples cur @ map snd gs\<rparr>),
                    silence_frame_count := int (length gs)\<rparr>"
    if "length gs < 24" "set gs \<subseteq> set fs" "set gs \<subseteq> set (take 23 fs)" for gs
  proof -
    have "\<forall>f\<in>set gs. \<not> vad (snd f)"
      using that(2) silent by blast
    moreover have "silence_frame_count st + int (length gs) < max_silence_frames sg"
      using that(1) fresh msf by simp
    moreover have "\<forall>f\<in>set gs. fst f - start_time cur \<le> real_of_int (segment_timeout_s sg)"
      using that(3) intime tmo by blast
    ultimately show ?thesis
      using silent_frames_keep_open[OF opened, of gs vad sg] fresh by simp
  qed
  have less: "length fs < 24 \<longrightarrow>
            Segmenter_loop sg vad (map Some fs) st =
              st\<lparr>cur_segment := Some (cur\<lparr>samples := samples cur @ map snd fs\<rparr>),
                 silence_frame_count := int (length fs)\<rparr>"
    using short[of fs] by simp
  have full_run: "Segmenter_loop sg vad (map Some fs) st =
              silence_end sg (fst (last fs)) (cur\<lparr>samples := samples cur @ map snd fs\<rparr>)
                (st\<lparr>cur_segment := Some (cur\<lparr>samples := samples cur @ map snd fs\<rparr>),
                   silence_frame_count := 24\<rparr>)" if len: "length fs = 24"
  proof -
    have ne: "fs \<noteq> []" using len by auto
    have split: "fs = butlast fs @ [last fs]" using ne by simp
    have bl: "butlast fs = take 23 fs" using len by (simp add: butlast_conv_take)
    let ?cur = "cur\<lparr>samples := samples cur @ map snd (butlast fs)\<rparr>"
    let ?st = "st\<lparr>cur_segment := Some ?cur, silence_frame_count := 23\<rparr>"
    have pre: "Segmenter_loop sg vad (map Some (butlast fs)) st = ?st"
      using short[of "butlast fs"] len bl by (simp add: set_take_subset)
    have quiet: "\<not> vad (snd (last fs))"
      using silent ne by simp
    have samples: "samples cur @ map snd (butlast fs) @ [snd (last fs)] = samples cur @ map snd fs"
      using arg_cong[OF split, of "map snd"] by simp
    have "Segmenter_loop sg vad (map Some fs) st = process_frame sg vad (last fs) ?st"
      using arg_cong[OF split, of "\<lambda>l. Segmenter_loop sg vad (map Some l) st"]
      by (simp add: loop_append loop_simps pre)
    also have "\<dots> = silence_end sg (fst (last fs)) (append_chunk (snd (last fs)) ?cur)
                       (note_frame False (fst (last fs)) (append_chunk (snd (last fs)) ?cur) ?st)"
      using process_frame_open[of ?st ?cur sg vad "fst (last fs)" "snd (last fs)"] quiet msf
      by simp
    finally show ?thesis
      by (simp add: note_frame_def append_chunk_def samples)
  qed
  have closed: "cur_segment (Segmenter_loop sg vad (map Some fs) st) = None" if "length fs = 24"
    using full_run[OF that] by (simp add: silence_end_def Let_def)
  from msf less full_run closed show ?thesis by blast
qed


text \<open>
  Under the shipped configuration a segment is also closed before its 24th silent frame:
  here the second silent frame arrives 10.5 s after the start of the segment, and the
  forced flush pushes the segment and returns to Idle.
\<close>

theorem C4_counterexample:
  "Segmenter_init 30 250 700 10 = Inr default_segmenter
   \<and> \<not> energy_vad silent_chunk
   \<and> cur_segment (Segmenter_loop default_segmenter energy_vad
        [Some (100, speech_chunk), Some (100.03, silent_chunk)] (init_state segments_queue)) =
       Some \<lparr>start_time = 100, end_time = None, samples = [speech_chunk, silent_chunk]\<rparr>
   \<and> Segmenter_loop default_segmenter energy_vad
        [Some (100, speech_chunk), Some (100.03, silent_chunk), Some (110.5, silent_chunk)]
        (init_state segments_queue) =
       init_state \<lparr>maxsize = 50,
                   items = [\<lparr>start_time = 100, end_time = Some 110.5,
                             samples = [speech_chunk, silent_chunk, silent_chunk]\<rparr>]\<rparr>"
  by (simp add: init_default) (simp add: run_simps)

lemma arrived_append: "arrived (xs @ ys) = arrived xs @ arrived ys"
  by (induction xs rule: arrived.induct) simp_all

lemma loop_snoc_None: "Segmenter_loop sg vad (gets @ [None]) st = Segmenter_loop sg vad gets st"
  by (simp add: loop_append loop_simps)

lemma py_or_cases: "py_or (Some v) ts = v \<or> py_or (Some v) ts = ts"
  by (simp add: py_or_def)

lemma process_frame_wellformed:
  assumes q: "\<forall>seg\<in>set (items (out_queue st)). samples seg \<noteq> [] \<and> (\<exists>e. end_time seg = Some e \<and> start_time seg \<le> e)"
    and c: "\<forall>seg. cur_segment st = Some seg \<longrightarrow>
              samples seg \<noteq> [] \<and> (\<exists>v. last_activity st = Some v \<and> start_time seg \<le> v \<and> v \<in> F)"
    and le: "\<forall>v\<in>F. v \<le> ts"
  shows "(\<forall>seg\<in>set (items (out_queue (process_frame sg vad (ts, pcm) st))).
            samples seg \<noteq> [] \<and> (\<exists>e. end_time seg = Some e \<and> start_time seg \<le> e))
       \<and> (\<forall>seg. cur_segment (process_frame sg vad (ts, pcm) st) = Some seg \<longrightarrow>
              samples seg \<noteq> [] \<and>
              (\<exists>v. last_activity (process_frame sg vad (ts, pcm) st) = Some v \<and> start_time seg \<le> v
                   \<and> v \<in> insert ts F))"
proof (cases "cur_segment st")
  case None
  then show ?thesis
    using q by (simp add: process_frame_idle)
next
  case (Some cur)
  then obtain v where v: "last_activity st = Some v" "start_time cur \<le> v" "v \<in> F" and ne: "samples cur \<noteq> []"
    using c by blast
  have vts: "v \<le> ts" using le v(3) by blast
  let ?seg = "append_chunk pcm cur"
  let ?noted = "note_frame (vad pcm) ts ?seg st"
  have seg: "samples ?seg \<noteq> []" "start_time ?seg = start_time cur"
    by (simp_all add: append_chunk_def)
  have la: "last_activity ?noted = Some (if vad pcm then ts else v)"
    by (simp add: v(1))
  have e: "start_time cur \<le> py_or (last_activity ?noted) ts"
    using py_or_cases[of "if vad pcm then ts else v" ts] v(2) vts unfolding la by auto
  have put: "\<forall>s\<in>set (items (out_queue (try_put msg (?seg\<lparr>end_time := Some t\<rparr>) ?noted))).
               samples s \<noteq> [] \<and> (\<exists>e. end_time s = Some e \<and> start_time s \<le> e)"
    if "start_time cur \<le> t" for msg t
    using q that seg by (auto simp: try_put_queue)
  consider (silence) "max_silence_frames sg \<le> silence_frame_count ?noted"
    | (timeout) "\<not> max_silence_frames sg \<le> silence_frame_count ?noted"
        "real_of_int (segment_timeout_s sg) < ts - start_time cur"
    | (stay) "\<not> max_silence_frames sg \<le> silence_frame_count ?noted"
        "\<not> real_of_int (segment_timeout_s sg) < ts - start_time cur"
    by blast
  then show ?thesis
  proof cases
    case silence
    then have "process_frame sg vad (ts, pcm) st = silence_end sg ts ?seg ?noted"
      by (simp add: process_frame_open[OF Some])
    then show ?thesis
      using put[OF e] q by (simp add: silence_end_def Let_def seg)
  next
    case timeout
    then have "process_frame sg vad (ts, pcm) st = force_flush ts ?seg ?noted"
      by (simp add: process_frame_open[OF Some])
    moreover have "start_time cur \<le> ts" using v(2) vts by simp
    ultimately show ?thesis
      using put by (simp add: force_flush_def)
  next
    case stay
    then have "process_frame sg vad (ts, pcm) st = ?noted"
      by (simp add: process_frame_open[OF Some])
    then show ?thesis
      using q seg v vts by simp
  qed
qed

text \<open>
  Claim C7. Start the Segmenter with an empty segment queue and let it consume frames whose
  timestamps are non-decreasing in arrival order. Every segment in the queue has at least
  one chunk of samples, and its end time is set and is not before its start time. The bound
  \<open>m\<close> of the queue is arbitrary; with \<open>m \<le> 0\<close> the queue is unbounded and holds every
  segment the Segmenter pushed, whether by the silence branch or by the forced flush.
\<close>

theorem C7_emitted_segments_wellformed:
  assumes "sorted (map fst (arrived gets))"
  shows "\<forall>seg\<in>set (items (out_queue (Segmenter_loop sg vad gets (init_state \<lparr>maxsize = m, items = []\<rparr>)))).
           samples seg \<noteq> [] \<and> (\<exists>e. end_time seg = Some e \<and> start_time seg \<le> e)"
proof -
  let ?L = "\<lambda>gs. Segmenter_loop sg vad gs (init_state \<lparr>maxsize = m, items = []\<rparr>)"
  have "(\<forall>seg\<in>set (items (out_queue (?L gets))).
            samples seg \<noteq> [] \<and> (\<exists>e. end_time seg = Some e \<and> start_time seg \<le> e))
       \<and> (\<forall>seg. cur_segment (?L gets) = Some seg \<longrightarrow>
              samples seg \<noteq> [] \<and>
              (\<exists>v. last_activity (?L gets) = Some v \<and> start_time seg \<le> v \<and> v \<in> fst ` set (arrived gets)))"
    using assms
  proof (induction gets rule: rev_induct)
    case Nil
    then show ?case by (simp add: init_state_def loop_Nil)
  next
    case (snoc g gets)
    have sorted: "sorted (map fst (arrived gets))"
      using snoc.prems by (simp add: arrived_append sorted_append)
    note IH = snoc.IH[OF sorted]
    show ?case
    proof (cases g)
      case None
      then show ?thesis using IH by (simp add: loop_snoc_None arrived_append)
    next
      case (Some fr)
      obtain ts pcm where fr: "fr = (ts, pcm)" by (cases fr)
      have le: "\<forall>v\<in>fst ` set (arrived gets). v \<le> ts"
        using snoc.prems by (auto simp: Some fr arrived_append sorted_append)
      have step: "?L (gets @ [g]) = process_frame sg vad (ts, pcm) (?L gets)"
        by (simp add: Some fr loop_append loop_simps)
      have set: "fst ` set (arrived (gets @ [g])) = insert ts (fst ` set (arrived gets))"
        by (auto simp: Some fr arrived_append)
      show ?thesis
        unfolding step set
        using process_frame_wellformed[OF conjunct1[OF IH] conjunct2[OF IH] le] .
    qed
  qed
  then show ?thesis by blast
qed


lemma silence_run_frames:
  "map Some (arrived (silence_run t n)) = silence_run t n"
  "length (arrived (silence_run t n)) = n"
  by (induction n arbitrary: t) simp_all

lemma silence_run_member:
  "f \<in> set (arrived (silence_run t n)) \<Longrightarrow> snd f = silent_chunk \<and> fst f \<le> t + 0.03 * real n"
proof (induction n arbitrary: t)
  case 0
  then show ?case by simp
next
  case (Suc n)
  from Suc.prems have "f = (t, silent_chunk) \<or> f \<in> set (arrived (silence_run (t + 0.03) n))"
    by simp
  then show ?case
  proof
    assume "f = (t, silent_chunk)"
    then show ?thesis by simp
  next
    assume "f \<in> set (arrived (silence_run (t + 0.03) n))"
    from Suc.IH[OF this] have "snd f = silent_chunk" "fst f \<le> t + 0.03 + 0.03 * real n"
      by simp_all
    moreover have "0.03 * real (Suc n) = 0.03 + 0.03 * real n"
      by simp
    ultimately show ?thesis by linarith
  qed
qed

lemma onset_state:
  "Segmenter_loop default_segmenter energy_vad [Some (100, speech_chunk), Some (100.27, speech_chunk)]
     (init_state segments_queue) =
   \<lparr>cur_segment = Some \<lparr>start_time = 100, end_time = None, samples = [speech_chunk, speech_chunk]\<rparr>,
    speech_frame_count = 2, silence_frame_count = 0, last_activity = Some 100.27,
    out_queue = segments_queue, logged = []\<rparr>"
  by (simp add: run_simps)

theorem C4_silence_run_closes_at_24_witness:
  "Segmenter_init 30 250 700 10 = Inr default_segmenter
   \<and> length (arrived (silence_run 100.30 23)) = 23
   \<and> cur_segment (Segmenter_loop default_segmenter energy_vad (silence_run 100.30 23)
        (Segmenter_loop default_segmenter energy_vad
           [Some (100, speech_chunk), Some (100.27, speech_chunk)] (init_state segments_queue))) =
       Some \<lparr>start_time = 100, end_time = None,
              samples = [speech_chunk, speech_chunk] @ map snd (arrived (silence_run 100.30 23))\<rparr>
   \<and> length (arrived (silence_run 100.30 24)) = 24
   \<and> cur_segment (Segmenter_loop default_segmenter energy_vad (silence_run 100.30 24)
        (Segmenter_loop default_segmenter energy_vad
           [Some (100, speech_chunk), Some (100.27, speech_chunk)] (init_state segments_queue))) = None"
proof -
  let ?st = "Segmenter_loop default_segmenter energy_vad
               [Some (100, speech_chunk), Some (100.27, speech_chunk)] (init_state segments_queue)"
  let ?cur = "\<lparr>start_time = 100, end_time = None, samples = [speech_chunk, speech_chunk]\<rparr>"
  have o: "cur_segment ?st = Some ?cur" and z: "silence_frame_count ?st = 0"
    unfolding onset_state by simp_all
  have sil: "\<not> energy_vad silent_chunk"
    by (simp add: energy_vad_def silent_chunk_def)
  have quiet: "\<forall>f\<in>set (arrived (silence_run 100.30 n)). \<not> energy_vad (snd f)" for n
    using silence_run_member sil by metis
  have intime: "\<forall>f\<in>set (take 23 (arrived (silence_run 100.30 n))). fst f - start_time ?cur \<le> real_of_int 10"
    if "n \<le> 24" for n
  proof
    fix f assume "f \<in> set (take 23 (arrived (silence_run 100.30 n)))"
    then have "f \<in> set (arrived (silence_run 100.30 n))"
      by (rule in_set_takeD)
    from silence_run_member[OF this] that have "fst f \<le> 100.30 + 0.03 * 24"
      by (simp add: algebra_simps)
    then show "fst f - start_time ?cur \<le> real_of_int 10" by simp
  qed
  have a: "cur_segment (Segmenter_loop default_segmenter energy_vad (silence_run 100.30 23) ?st) =
             Some \<lparr>start_time = 100, end_time = None,
                    samples = [speech_chunk, speech_chunk] @ map snd (arrived (silence_run 100.30 23))\<rparr>"
  proof -
    have "(23::nat) \<le> 24" by simp
    from C4_silence_run_closes_at_24[OF init_default o z quiet[of 23] intime[OF this]]
    have "Segmenter_loop default_segmenter energy_vad (map Some (arrived (silence_run 100.30 23))) ?st =
            ?st\<lparr>cur_segment := Some (?cur\<lparr>samples := samples ?cur @ map snd (arrived (silence_run 100.30 23))\<rparr>),
               silence_frame_count := int (length (arrived (silence_run 100.30 23)))\<rparr>"
      using silence_run_frames(2)[of "100.30" 23] by simp
    then show ?thesis
      unfolding silence_run_frames(1) by simp
  qed
  have b: "cur_segment (Segmenter_loop default_segmenter energy_vad (silence_run 100.30 24) ?st) = None"
  proof -
    from C4_silence_run_closes_at_24[OF init_default o z quiet[of 24] intime[OF order_refl]]
    have "cur_segment (Segmenter_loop default_segmenter energy_vad (map Some (arrived (silence_run 100.30 24))) ?st) = None"
      using silence_run_frames(2)[of "100.30" 24] by blast
    then show ?thesis
      unfolding silence_run_frames(1) .
  qed
  from a b show ?thesis
    using init_default silence_run_frames(2)[of "100.30" 23] silence_run_frames(2)[of "100.30" 24]
    by blast
qed

theorem C7_emitted_segments_wellformed_witness:
  "sorted (map fst (arrived (long_talk @ [Some (100.99, silent_chunk)])))
   \<and> items (out_queue (Segmenter_loop default_segmenter energy_vad (long_talk @ [Some (100.99, silent_chunk)])
        (init_state \<lparr>maxsize = 50, items = []\<rparr>))) =
       [\<lparr>start_time = 100, end_time = Some 100.27,
         samples = speech_chunk # speech_chunk # replicate 24 silent_chunk\<rparr>]
   \<and> (\<exists>e. end_time \<lparr>start_time = 100, end_time = Some 100.27,
         samples = speech_chunk # speech_chunk # replicate 24 silent_chunk\<rparr> = Some e
          \<and> start_time \<lparr>start_time = 100, end_time = Some 100.27,
         samples = speech_chunk # speech_chunk # replicate 24 silent_chunk\<rparr> \<le> e)"
proof -
  let ?gets = "long_talk @ [Some (100.99, silent_chunk)]"
  let ?seg = "\<lparr>start_time = 100, end_time = Some 100.27,
         samples = speech_chunk # speech_chunk # replicate 24 silent_chunk\<rparr>"
  have s: "sorted (map fst (arrived ?gets))"
    by (simp add: long_talk_def silence_run_numeral arrived_append)
  have i: "items (out_queue (Segmenter_loop default_segmenter energy_vad ?gets
              (init_state \<lparr>maxsize = 50, items = []\<rparr>))) = [?seg]"
    unfolding segments_queue_def[symmetric] loop_snoc long_talk_state
    by (simp add: run_simps)
  have "?seg \<in> set (items (out_queue (Segmenter_loop default_segmenter energy_vad ?gets
              (init_state \<lparr>maxsize = 50, items = []\<rparr>))))"
    unfolding i by simp
  with C7_emitted_segments_wellformed[OF s, of default_segmenter energy_vad 50]
  have "samples ?seg \<noteq> [] \<and> (\<exists>e. end_time ?seg = Some e \<and> start_time ?seg \<le> e)"
    by blast
  with s i show ?thesis by blast
qed

lemma process_frame_first_speech:
  assumes q: "\<forall>seg\<in>set (items (out_queue st)).
                samples seg \<noteq> [] \<and> vad (hd (samples seg)) \<and> (start_time seg, hd (samples seg)) \<in> F"
    and c: "\<forall>seg. cur_segment st = Some seg \<longrightarrow>
                samples seg \<noteq> [] \<and> vad (hd (samples seg)) \<and> (start_time seg, hd (samples seg)) \<in> F"
  shows "(\<forall>seg\<in>set (items (out_queue (process_frame sg vad (ts, pcm) st))).
            samples seg \<noteq> [] \<and> vad (hd (samples seg)) \<and> (start_time seg, hd (samples seg)) \<in> insert (ts, pcm) F)
       \<and> (\<forall>seg. cur_segment (process_frame sg vad (ts, pcm) st) = Some seg \<longrightarrow>
            samples seg \<noteq> [] \<and> vad (hd (samples seg)) \<and> (start_time seg, hd (samples seg)) \<in> insert (ts, pcm) F)"
proof (cases "cur_segment st")
  case None
  then show ?thesis
    using q by (simp add: process_frame_idle)
next
  case (Some cur)
  then have cur: "samples cur \<noteq> []" "vad (hd (samples cur))" "(start_time cur, hd (samples cur)) \<in> F"
    using c by simp_all
  let ?seg = "append_chunk pcm cur"
  let ?noted = "note_frame (vad pcm) ts ?seg st"
  have seg: "samples (?seg\<lparr>end_time := t\<rparr>) \<noteq> []" "hd (samples (?seg\<lparr>end_time := t\<rparr>)) = hd (samples cur)"
    "start_time (?seg\<lparr>end_time := t\<rparr>) = start_time cur" for t
    using cur(1) by (simp_all add: append_chunk_def)
  have seg': "samples ?seg \<noteq> []" "hd (samples ?seg) = hd (samples cur)" "start_time ?seg = start_time cur"
    using cur(1) by (simp_all add: append_chunk_def)
  have put: "\<forall>s\<in>set (items (out_queue (try_put msg (?seg\<lparr>end_time := t\<rparr>) ?noted))).
               samples s \<noteq> [] \<and> vad (hd (samples s)) \<and> (start_time s, hd (samples s)) \<in> insert (ts, pcm) F"
    for msg t
    using q cur seg[of t] by (auto simp: try_put_queue)
  have keep: "\<forall>s\<in>set (items (out_queue ?noted)).
               samples s \<noteq> [] \<and> vad (hd (samples s)) \<and> (start_time s, hd (samples s)) \<in> insert (ts, pcm) F"
    using q by simp
  consider (silence) "max_silence_frames sg \<le> silence_frame_count ?noted"
    | (timeout) "\<not> max_silence_frames sg \<le> silence_frame_count ?noted"
        "real_of_int (segment_timeout_s sg) < ts - start_time cur"
    | (stay) "\<not> max_silence_frames sg \<le> silence_frame_count ?noted"
        "\<not> real_of_int (segment_timeout_s sg) < ts - start_time cur"
    by blast
  then show ?thesis
  proof cases
    case silence
    then have "process_frame sg vad (ts, pcm) st = silence_end sg ts ?seg ?noted"
      by (simp add: process_frame_open[OF Some])
    then show ?thesis
      using put keep by (simp add: silence_end_def Let_def)
  next
    case timeout
    then have "process_frame sg vad (ts, pcm) st = force_flush ts ?seg ?noted"
      by (simp add: process_frame_open[OF Some])
    then show ?thesis
      using put by (simp add: force_flush_def)
  next
    case stay
    then have "process_frame sg vad (ts, pcm) st = ?noted"
      by (simp add: process_frame_open[OF Some])
    then show ?thesis
      using keep seg' cur by simp
  qed
qed

lemma first_frame_is_speech:
  "(\<forall>seg\<in>set (items (out_queue (Segmenter_loop sg vad gets (init_state \<lparr>maxsize = m, items = []\<rparr>)))).
      samples seg \<noteq> [] \<and> vad (hd (samples seg)) \<and> (start_time seg, hd (samples seg)) \<in> set (arrived gets))
   \<and> (\<forall>seg. cur_segment (Segmenter_loop sg vad gets (init_state \<lparr>maxsize = m, items = []\<rparr>)) = Some seg \<longrightarrow>
      samples seg \<noteq> [] \<and> vad (hd (samples seg)) \<and> (start_time seg, hd (samples seg)) \<in> set (arrived gets))"
proof (induction gets rule: rev_induct)
  case Nil
  then show ?case by (simp add: init_state_def loop_Nil)
next
  case (snoc g gets)
  show ?case
  proof (cases g)
    case None
    then show ?thesis using snoc.IH by (simp add: loop_snoc_None arrived_append)
  next
    case (Some fr)
    obtain ts pcm where fr: "fr = (ts, pcm)" by (cases fr)
    have step: "Segmenter_loop sg vad (gets @ [g]) (init_state \<lparr>maxsize = m, items = []\<rparr>) =
                  process_frame sg vad (ts, pcm) (Segmenter_loop sg vad gets (init_state \<lparr>maxsize = m, items = []\<rparr>))"
      by (simp add: Some fr loop_append loop_simps)
    have set: "set (arrived (gets @ [g])) = insert (ts, pcm) (set (arrived gets))"
      by (simp add: Some fr arrived_append)
    show ?thesis
      unfolding step set
      using process_frame_first_speech[OF conjunct1[OF snoc.IH] conjunct2[OF snoc.IH]] .
  qed
qed

text \<open>
  Claim C6. Let \<open>st\<close> be the state after any sequence of frames, and let one more frame
  arrive. In Idle a silent frame leaves the whole state as it is; in Idle a speech frame
  opens a segment that starts at the frame's timestamp and holds exactly that frame; with a
  segment open, the frame either closes it or is appended to it, and no other segment
  appears. Hence the first chunk of the open segment and of every queued segment is a
  speech frame that arrived with the segment's start time as its timestamp.
\<close>

theorem C6_segment_opens_on_speech_in_idle:
  assumes st: "st = Segmenter_loop sg vad gets (init_state \<lparr>maxsize = m, items = []\<rparr>)"
  shows "(cur_segment st = None \<and> \<not> vad pcm \<longrightarrow> process_frame sg vad (ts, pcm) st = st)
       \<and> (cur_segment st = None \<and> vad pcm \<longrightarrow>
            cur_segment (process_frame sg vad (ts, pcm) st) =
              Some \<lparr>start_time = ts, end_time = None, samples = [pcm]\<rparr>
            \<and> out_queue (process_frame sg vad (ts, pcm) st) = out_queue st)
       \<and> (\<forall>cur. cur_segment st = Some cur \<longrightarrow>
            cur_segment (process_frame sg vad (ts, pcm) st) = None
            \<or> cur_segment (process_frame sg vad (ts, pcm) st) = Some (append_chunk pcm cur))
       \<and> (\<forall>seg. cur_segment st = Some seg \<or> seg \<in> set (items (out_queue st)) \<longrightarrow>
            samples seg \<noteq> [] \<and> vad (hd (samples seg))
            \<and> (start_time seg, hd (samples seg)) \<in> set (arrived gets))"
proof -
  have idle_silence: "cur_segment st = None \<and> \<not> vad pcm \<longrightarrow> process_frame sg vad (ts, pcm) st = st"
    by (simp add: process_frame_idle)
  have idle_speech: "cur_segment st = None \<and> vad pcm \<longrightarrow>
            cur_segment (process_frame sg vad (ts, pcm) st) =
              Some \<lparr>start_time = ts, end_time = None, samples = [pcm]\<rparr>
            \<and> out_queue (process_frame sg vad (ts, pcm) st) = out_queue st"
    by (simp add: process_frame_idle)
  have opened: "cur_segment (process_frame sg vad (ts, pcm) st) = None
            \<or> cur_segment (process_frame sg vad (ts, pcm) st) = Some (append_chunk pcm cur)"
    if "cur_segment st = Some cur" for cur
    by (simp add: process_frame_open[OF that] silence_end_def force_flush_def Let_def)
  have inv: "\<forall>seg. cur_segment st = Some seg \<or> seg \<in> set (items (out_queue st)) \<longrightarrow>
            samples seg \<noteq> [] \<and> vad (hd (samples seg))
            \<and> (start_time seg, hd (samples seg)) \<in> set (arrived gets)"
    using first_frame_is_speech[of sg vad gets m] unfolding st by blast
  from idle_silence idle_speech opened inv show ?thesis by blast
qed

theorem C6_segment_opens_on_speech_in_idle_witness:
  "Segmenter_loop default_segmenter energy_vad [Some (99.97, silent_chunk)] (init_state \<lparr>maxsize = 50, items = []\<rparr>)
     = init_state \<lparr>maxsize = 50, items = []\<rparr>
   \<and> \<not> energy_vad silent_chunk \<and> energy_vad speech_chunk
   \<and> process_frame default_segmenter energy_vad (99.98, silent_chunk)
        (Segmenter_loop default_segmenter energy_vad [Some (99.97, silent_chunk)] (init_state \<lparr>maxsize = 50, items = []\<rparr>))
       = Segmenter_loop default_segmenter energy_vad [Some (99.97, silent_chunk)] (init_state \<lparr>maxsize = 50, items = []\<rparr>)
   \<and> cur_segment (process_frame default_segmenter energy_vad (100, speech_chunk)
        (Segmenter_loop default_segmenter energy_vad [Some (99.97, silent_chunk)] (init_state \<lparr>maxsize = 50, items = []\<rparr>)))
       = Some \<lparr>start_time = 100, end_time = None, samples = [speech_chunk]\<rparr>
   \<and> items (out_queue (Segmenter_loop default_segmenter energy_vad (long_talk @ [Some (100.99, silent_chunk)])
        (init_state \<lparr>maxsize = 50, items = []\<rparr>))) =
       [\<lparr>start_time = 100, end_time = Some 100.27,
         samples = speech_chunk # speech_chunk # replicate 24 silent_chunk\<rparr>]
   \<and> (100, speech_chunk) \<in> set (arrived (long_talk @ [Some (100.99, silent_chunk)]))"
proof -
  let ?q = "\<lparr>maxsize = 50, items = []\<rparr> :: AudioSegment queue"
  let ?idle = "Segmenter_loop default_segmenter energy_vad [Some (99.97, silent_chunk)] (init_state ?q)"
  let ?gets = "long_talk @ [Some (100.99, silent_chunk)]"
  let ?seg = "\<lparr>start_time = 100, end_time = Some 100.27,
         samples = speech_chunk # speech_chunk # replicate 24 silent_chunk\<rparr>"
  have sil: "\<not> energy_vad silent_chunk" and sp: "energy_vad speech_chunk"
    by (simp_all add: energy_vad_def silent_chunk_def speech_chunk_def)
  have idle: "?idle = init_state ?q"
    by (simp add: loop_simps process_frame_idle init_state_def sil)
  have none: "cur_segment ?idle = None"
    unfolding idle by (simp add: init_state_def)
  have a: "process_frame default_segmenter energy_vad (99.98, silent_chunk) ?idle = ?idle"
    using C6_segment_opens_on_speech_in_idle[OF refl, of default_segmenter energy_vad
        "[Some (99.97, silent_chunk)]" 50 silent_chunk "99.98"] none sil
    by blast
  have b: "cur_segment (process_frame default_segmenter energy_vad (100, speech_chunk) ?idle)
             = Some \<lparr>start_time = 100, end_time = None, samples = [speech_chunk]\<rparr>"
    using C6_segment_opens_on_speech_in_idle[OF refl, of default_segmenter energy_vad
        "[Some (99.97, silent_chunk)]" 50 speech_chunk 100] none sp
    by blast
  have i: "items (out_queue (Segmenter_loop default_segmenter energy_vad ?gets (init_state ?q))) = [?seg]"
    unfolding segments_queue_def[symmetric] loop_snoc long_talk_state
    by (simp add: run_simps)
  have "?seg \<in> set (items (out_queue (Segmenter_loop default_segmenter energy_vad ?gets (init_state ?q))))"
    unfolding i by simp
  with C6_segment_opens_on_speech_in_idle[OF refl, of default_segmenter energy_vad ?gets 50]
  have "(start_time ?seg, hd (samples ?seg)) \<in> set (arrived ?gets)"
    by blast
  then have c: "(100, speech_chunk) \<in> set (arrived ?gets)"
    by simp
  from idle sil sp a b i c show ?thesis by blast
qed

subsection \<open>STT worker\<close>

lemma process_segment_failed:
  assumes "stt (get_pcm_bytes seg) sample_rate = Inl e \<or> stt (get_pcm_bytes seg) sample_rate = Inr ([], conf)"
  shows "process_segment stt sample_rate srt seg w =
           w\<lparr>wlogged := (case stt (get_pcm_bytes seg) sample_rate of
                            Inl e' \<Rightarrow> wlogged w @ [(ERROR, ''STT backend error: '' @ e')]
                          | Inr r \<Rightarrow> wlogged w)\<rparr>"
  using assms by (auto simp: process_segment_def)

lemma process_segment_log:
  "\<exists>l'. process_segment stt sample_rate srt seg (w\<lparr>wlogged := l\<rparr>) =
          (process_segment stt sample_rate srt seg w)\<lparr>wlogged := l'\<rparr>"
proof (cases "stt (get_pcm_bytes seg) sample_rate")
  case (Inl e)
  show ?thesis
    by (rule exI[of _ "l @ [(ERROR, ''STT backend error: '' @ e)]"])
       (simp add: process_segment_def Inl)
next
  case (Inr r)
  show ?thesis
    by (rule exI[of _ l], cases r) (simp add: process_segment_def Inr)
qed

lemma worker_loop_log:
  "\<exists>l'. STTWorker_loop stt sample_rate srt gets (w\<lparr>wlogged := l\<rparr>) =
          (STTWorker_loop stt sample_rate srt gets w)\<lparr>wlogged := l'\<rparr>"
proof (induction gets arbitrary: w l)
  case Nil
  then show ?case by (simp add: STTWorker_loop_def) (rule exI, rule refl)
next
  case (Cons g gets)
  show ?case
  proof (cases g)
    case None
    then show ?thesis
      using Cons.IH[where w = w and l = l] by (simp add: STTWorker_loop_def STTWorker_iter_def)
  next
    case (Some seg)
    obtain l' where "process_segment stt sample_rate srt seg (w\<lparr>wlogged := l\<rparr>) =
          (process_segment stt sample_rate srt seg w)\<lparr>wlogged := l'\<rparr>"
      using process_segment_log by blast
    then show ?thesis
      using Cons.IH[where w = "process_segment stt sample_rate srt seg w" and l = l']
      by (simp add: STTWorker_loop_def STTWorker_iter_def Some)
  qed
qed

lemma always_raising_loop:
  assumes "\<forall>p r. \<exists>e. stt p r = Inl e"
  shows "ui_calls (STTWorker_loop stt sample_rate srt gets w) = ui_calls w
       \<and> files (STTWorker_loop stt sample_rate srt gets w) = files w
       \<and> seq (STTWorker_loop stt sample_rate srt gets w) = seq w"
proof (induction gets arbitrary: w)
  case Nil
  then show ?case by (simp add: STTWorker_loop_def)
next
  case (Cons g gets)
  show ?case
  proof (cases g)
    case None
    then show ?thesis
      using Cons.IH[of w] by (simp add: STTWorker_loop_def STTWorker_iter_def)
  next
    case (Some seg)
    obtain e where "stt (get_pcm_bytes seg) sample_rate = Inl e"
      using assms by blast
    then have "process_segment stt sample_rate srt seg w =
                 w\<lparr>wlogged := wlogged w @ [(ERROR, ''STT backend error: '' @ e)]\<rparr>"
      by (simp add: process_segment_def)
    then show ?thesis
      using Cons.IH[of "w\<lparr>wlogged := wlogged w @ [(ERROR, ''STT backend error: '' @ e)]\<rparr>"]
      by (simp add: STTWorker_loop_def STTWorker_iter_def Some)
  qed
qed

text \<open>
  Claim C2. When the backend raises on a popped segment, or returns an empty text, the
  iteration makes no caption call, writes nothing to the subtitle file and leaves the
  sequence counter as it was; the loop goes on, and what it does with the segments that
  follow is what it would have done without the failed one (the log apart). With a backend
  that raises on every input the worker, however many segments it pops, makes no caption
  call and no write and keeps its counter.
\<close>

theorem C2_failed_segment_skipped:
  assumes fail: "stt (get_pcm_bytes seg) sample_rate = Inl e
                 \<or> stt (get_pcm_bytes seg) sample_rate = Inr ([], conf)"
  shows "ui_calls (STTWorker_iter stt sample_rate srt (Some seg) w) = ui_calls w
       \<and> files (STTWorker_iter stt sample_rate srt (Some seg) w) = files w
       \<and> seq (STTWorker_iter stt sample_rate srt (Some seg) w) = seq w
       \<and> (\<exists>l. STTWorker_loop stt sample_rate srt (Some seg # rest) w =
                (STTWorker_loop stt sample_rate srt rest w)\<lparr>wlogged := l\<rparr>)
       \<and> ((\<forall>p r. \<exists>e'. stt p r = Inl e') \<longrightarrow>
            (\<forall>gets. ui_calls (STTWorker_loop stt sample_rate srt gets w) = ui_calls w
                   \<and> files (STTWorker_loop stt sample_rate srt gets w) = files w
                   \<and> seq (STTWorker_loop stt sample_rate srt gets w) = seq w))"
proof -
  note step = process_segment_failed[where stt = stt and seg = seg and sample_rate = sample_rate
      and e = e and conf = conf and srt = srt and w = w, OF fail]
  have one: "ui_calls (STTWorker_iter stt sample_rate srt (Some seg) w) = ui_calls w
       \<and> files (STTWorker_iter stt sample_rate srt (Some seg) w) = files w
       \<and> seq (STTWorker_iter stt sample_rate srt (Some seg) w) = seq w"
    by (simp add: STTWorker_iter_def step)
  have "STTWorker_loop stt sample_rate srt (Some seg # rest) w =
          STTWorker_loop stt sample_rate srt rest (process_segment stt sample_rate srt seg w)"
    by (simp add: STTWorker_loop_def STTWorker_iter_def)
  then have continues: "\<exists>l. STTWorker_loop stt sample_rate srt (Some seg # rest) w =
                (STTWorker_loop stt sample_rate srt rest w)\<lparr>wlogged := l\<rparr>"
    unfolding step using worker_loop_log by simp
  from one continues always_raising_loop[of stt sample_rate srt _ w] show ?thesis
    by blast
qed

theorem C2_failed_segment_skipped_witness:
  "failing_backend (get_pcm_bytes two_chunk_segment) 16000 = Inl ''model unavailable''
   \<and> ui_calls (STTWorker_loop failing_backend 16000 \<lparr>filename = ''captions.srt''\<rparr>
        [Some two_chunk_segment, None, Some one_chunk_segment] (STTWorker_init [''captions.srt'' \<mapsto> []])) = []
   \<and> files (STTWorker_loop failing_backend 16000 \<lparr>filename = ''captions.srt''\<rparr>
        [Some two_chunk_segment, None, Some one_chunk_segment] (STTWorker_init [''captions.srt'' \<mapsto> []])) = [''captions.srt'' \<mapsto> []]
   \<and> seq (STTWorker_loop failing_backend 16000 \<lparr>filename = ''captions.srt''\<rparr>
        [Some two_chunk_segment, None, Some one_chunk_segment] (STTWorker_init [''captions.srt'' \<mapsto> []])) = 1"
proof -
  have f: "failing_backend (get_pcm_bytes two_chunk_segment) 16000 = Inl ''model unavailable''"
    by (simp add: failing_backend_def)
  have always: "\<forall>p r. \<exists>e'. failing_backend p r = Inl e'"
    by (simp add: failing_backend_def)
  from C2_failed_segment_skipped[where stt = failing_backend and seg = two_chunk_segment
      and sample_rate = 16000 and e = "''model unavailable''" and srt = "\<lparr>filename = ''captions.srt''\<rparr>"
      and w = "STTWorker_init [''captions.srt'' \<mapsto> []]", OF disjI1[OF f]] always
  show ?thesis
    using f by (simp add: STTWorker_init_def)
qed

text \<open>
  A worker whose backend rejects the first segment and accepts the second: one caption, one
  entry, and the entry carries index 1.
\<close>

lemma worker_resumes_after_failure:
  "picky_backend (get_pcm_bytes one_chunk_segment) 16000 = Inl ''audio too short''
   \<and> ui_calls (STTWorker_loop picky_backend 16000 \<lparr>filename = ''captions.srt''\<rparr>
        [Some one_chunk_segment, Some two_chunk_segment] (STTWorker_init Map.empty)) = [''hello'']
   \<and> seq (STTWorker_loop picky_backend 16000 \<lparr>filename = ''captions.srt''\<rparr>
        [Some one_chunk_segment, Some two_chunk_segment] (STTWorker_init Map.empty)) = 2
   \<and> files (STTWorker_loop picky_backend 16000 \<lparr>filename = ''captions.srt''\<rparr>
        [Some one_chunk_segment, Some two_chunk_segment] (STTWorker_init Map.empty)) ''captions.srt''
       = Some (entry_text 1 100 100.27 ''hello'')"
  by (simp add: picky_backend_def get_pcm_bytes_def tobytes_def one_chunk_segment_def
        two_chunk_segment_def speech_chunk_def STTWorker_loop_def STTWorker_iter_def
        process_segment_def STTWorker_init_def write_entry_def append_file_def py_or_def)

subsection \<open>Subtitle timestamps\<close>

lemma digit_char_0: "digit_char 0 = CHR ''0''"
  by (simp add: digit_char_def)

lemma format_0w_2:
  assumes "0 \<le> i" "i < 100"
  shows "format_0w 2 i = [digit_char (nat i div 10), digit_char (nat i mod 10)]"
proof (cases "nat i < 10")
  case True
  then show ?thesis
    using assms by (simp add: format_0w_def zfill_def str_nat.simps[of "nat i"] digit_char_0)
next
  case False
  then have "nat i div 10 < 10" using assms by simp
  then show ?thesis
    using assms False
    by (simp add: format_0w_def zfill_def str_nat.simps[of "nat i"] str_nat.simps[of "nat i div 10"])
qed

lemma format_0w_3:
  assumes "0 \<le> i" "i < 1000"
  shows "format_0w 3 i =
           [digit_char (nat i div 100), digit_char (nat i div 10 mod 10), digit_char (nat i mod 10)]"
proof -
  consider (one) "nat i < 10" | (two) "10 \<le> nat i" "nat i < 100" | (three) "100 \<le> nat i"
    by linarith
  then show ?thesis
  proof cases
    case one
    then show ?thesis
      using assms
      by (simp add: format_0w_def zfill_def str_nat.simps[of "nat i"] digit_char_0 numeral_3_eq_3)
  next
    case two
    then have "nat i div 10 < 10" "nat i div 100 = 0" by simp_all
    then show ?thesis
      using assms two
      by (simp add: format_0w_def zfill_def str_nat.simps[of "nat i"]
            str_nat.simps[of "nat i div 10"] digit_char_0)
  next
    case three
    then have "10 \<le> nat i div 10" "nat i div 10 div 10 < 10" "nat i div 10 div 10 = nat i div 100"
      using assms by (simp_all add: div_mult2_eq[symmetric])
    then show ?thesis
      using assms three
      by (simp add: format_0w_def zfill_def str_nat.simps[of "nat i"]
            str_nat.simps[of "nat i div 10"] str_nat.simps[of "nat i div 100"])
  qed
qed

lemma floor_ms_div:
  fixes ts :: real
  shows "\<lfloor>ts * 1000\<rfloor> div 1000 = \<lfloor>ts\<rfloor>"
    and "\<lfloor>ts * 1000\<rfloor> div (1000 * 60) = \<lfloor>ts / 60\<rfloor>"
    and "\<lfloor>ts * 1000\<rfloor> div (1000 * 60 * 60) = \<lfloor>ts / 3600\<rfloor>"
  using floor_divide_real_eq_div[of 1000 "ts * 1000"]
    floor_divide_real_eq_div[of 60000 "ts * 1000"]
    floor_divide_real_eq_div[of 3600000 "ts * 1000"]
  by simp_all

lemma pow2_pos: "0 < pow2 k"
  by (simp add: pow2_def)

lemma round_half_even_nonneg: "0 \<le> r \<Longrightarrow> 0 \<le> round_half_even r"
  by (simp add: round_half_even_def Let_def)

lemma b64_round_nonneg:
  assumes "0 \<le> x"
  shows "0 \<le> b64_round x"
proof (cases "x = 0")
  case True
  then show ?thesis by (simp add: b64_round_def)
next
  case False
  with assms have pos: "0 < x" by simp
  let ?u = "max (- 1074) (binade \<bar>x\<bar> - 52)"
  have "0 \<le> \<bar>x\<bar> / pow2 ?u"
    using pow2_pos[of ?u] by simp
  then have "0 \<le> round_half_even (\<bar>x\<bar> / pow2 ?u)"
    by (rule round_half_even_nonneg)
  then have "0 \<le> real_of_int (round_half_even (\<bar>x\<bar> / pow2 ?u)) * pow2 ?u"
    using pow2_pos[of ?u] by simp
  then show ?thesis
    using pos False by (simp add: b64_round_def Let_def)
qed

lemma bit_length_numeral [simp]:
  "bit_length 0 = 0"
  "bit_length (Suc 0) = Suc 0"
  "bit_length (numeral k) = Suc (bit_length (numeral k div 2))"
  by (simp_all add: bit_length.simps[of 0] bit_length.simps[of "Suc 0"] bit_length.simps[of "numeral k"])

text \<open>
  What makes \<open>b64_round\<close> the binary64 rounding: \<open>binade\<close> is the exponent of the power
  of two at or below its argument; the result is a whole multiple of the unit in the last
  place, with a significand of at most \<open>2 ^ 53\<close>, and lies within half a unit of the
  argument.
\<close>

lemma bit_length_bounds:
  "0 < n \<Longrightarrow> 2 ^ (bit_length n - 1) \<le> n \<and> n < 2 ^ bit_length n"
proof (induction n rule: bit_length.induct)
  case (1 n)
  show ?case
  proof (cases "n div 2 = 0")
    case True
    with "1.prems" have "n = 1" by presburger
    then show ?thesis
      by (simp add: bit_length.simps[of 1] bit_length.simps[of 0])
  next
    case False
    then have pos: "0 < n div 2" by simp
    from "1.IH"[OF _ pos] "1.prems"
    have ih: "2 ^ (bit_length (n div 2) - 1) \<le> n div 2" "n div 2 < 2 ^ bit_length (n div 2)"
      by simp_all
    have bl: "bit_length n = Suc (bit_length (n div 2))"
      using "1.prems" by (simp add: bit_length.simps[of n])
    have gt: "0 < bit_length (n div 2)"
      using pos by (simp add: bit_length.simps[of "n div 2"])
    then have "(2::nat) ^ bit_length (n div 2) = 2 * 2 ^ (bit_length (n div 2) - 1)"
      by (cases "bit_length (n div 2)") simp_all
    moreover have "2 * (n div 2) \<le> n" "n < 2 * (n div 2) + 2"
      by presburger+
    ultimately have "2 ^ bit_length (n div 2) \<le> n" "n < 2 * 2 ^ bit_length (n div 2)"
      using ih by linarith+
    then show ?thesis
      by (simp add: bl)
  qed
qed

lemma pow2_nat: "pow2 (int k) = 2 ^ k" "pow2 (- int k) = 1 / 2 ^ k"
  by (simp_all add: pow2_def)

lemma binade_bounds:
  assumes "0 < x"
  shows "pow2 (binade x) \<le> x \<and> x < pow2 (binade x + 1)"
proof (cases "1 \<le> x")
  case True
  let ?n = "nat \<lfloor>x\<rfloor>"
  have n: "0 < ?n" using True by simp
  have xn: "real ?n \<le> x" "x < real ?n + 1"
    using True by linarith+
  have b: "2 ^ (bit_length ?n - 1) \<le> ?n" "?n + 1 \<le> 2 ^ bit_length ?n"
    using conjunct1[OF bit_length_bounds[OF n]] Suc_leI[OF conjunct2[OF bit_length_bounds[OF n]]]
    by (simp_all only: Suc_eq_plus1)
  have k: "0 < bit_length ?n"
    using n by (simp add: bit_length.simps[of ?n])
  have e: "binade x = int (bit_length ?n - 1)" "binade x + 1 = int (bit_length ?n)"
    using True k by (simp_all add: binade_def)
  have "(2::real) ^ (bit_length ?n - 1) \<le> real ?n"
    using of_nat_mono[OF b(1), where 'a = real] by simp
  moreover have "real ?n + 1 \<le> 2 ^ bit_length ?n"
    using of_nat_mono[OF b(2), where 'a = real] by simp
  moreover have "pow2 (binade x) = 2 ^ (bit_length ?n - 1)"
    by (simp only: e(1) pow2_nat)
  moreover have "pow2 (binade x + 1) = 2 ^ bit_length ?n"
    by (simp only: e(2) pow2_nat)
  ultimately show ?thesis
    using xn by linarith
next
  case False
  with assms have x: "0 < x" "x < 1" by simp_all
  let ?y = "1 / x"
  let ?n = "nat (\<lceil>?y\<rceil> - 1)"
  have y: "1 < ?y" using x by simp
  then have c: "2 \<le> \<lceil>?y\<rceil>" by linarith
  then have n: "0 < ?n" by simp
  have yn: "real ?n < ?y" "?y \<le> real ?n + 1"
    using c by linarith+
  have b: "2 ^ (bit_length ?n - 1) \<le> ?n" "?n + 1 \<le> 2 ^ bit_length ?n"
    using conjunct1[OF bit_length_bounds[OF n]] Suc_leI[OF conjunct2[OF bit_length_bounds[OF n]]]
    by (simp_all only: Suc_eq_plus1)
  have k: "0 < bit_length ?n"
    using n by (simp add: bit_length.simps[of ?n])
  have e: "binade x = - int (bit_length ?n)" "binade x + 1 = - int (bit_length ?n - 1)"
    using False k by (simp_all add: binade_def)
  have lo: "(2::real) ^ (bit_length ?n - 1) \<le> real ?n"
    using of_nat_mono[OF b(1), where 'a = real] by simp
  have hi: "real ?n + 1 \<le> 2 ^ bit_length ?n"
    using of_nat_mono[OF b(2), where 'a = real] by simp
  have "?y \<le> 2 ^ bit_length ?n" using yn hi by linarith
  then have 1: "1 / 2 ^ bit_length ?n \<le> x"
    using x by (simp add: field_simps)
  have "(2::real) ^ (bit_length ?n - 1) < ?y" using yn lo by linarith
  then have 2: "x < 1 / 2 ^ (bit_length ?n - 1)"
    using x by (simp add: field_simps)
  have "pow2 (binade x) = 1 / 2 ^ bit_length ?n"
    by (simp only: e(1) pow2_nat)
  moreover have "pow2 (binade x + 1) = 1 / 2 ^ (bit_length ?n - 1)"
    by (simp only: e(2) pow2_nat)
  ultimately show ?thesis
    using 1 2 by simp
qed

lemma round_half_even_error: "\<bar>real_of_int (round_half_even r) - r\<bar> \<le> 1 / 2"
  unfolding round_half_even_def Let_def by (auto; linarith)

lemma b64_round_error:
  assumes "x \<noteq> 0"
  shows "\<bar>b64_round x - x\<bar> \<le> pow2 (max (- 1074) (binade \<bar>x\<bar> - 52)) / 2"
proof -
  let ?u = "max (- 1074) (binade \<bar>x\<bar> - 52)"
  let ?r = "\<bar>x\<bar> / pow2 ?u"
  have p: "0 < pow2 ?u" by (rule pow2_pos)
  have "\<bar>b64_round x - x\<bar> = \<bar>real_of_int (round_half_even ?r) * pow2 ?u - \<bar>x\<bar>\<bar>"
  proof (cases "0 < x")
    case True
    then show ?thesis by (simp add: b64_round_def Let_def)
  next
    case False
    with assms have "x < 0" by simp
    then show ?thesis by (simp add: b64_round_def Let_def)
  qed
  also have "\<dots> = \<bar>(real_of_int (round_half_even ?r) - ?r) * pow2 ?u\<bar>"
    using p by (simp add: left_diff_distrib)
  also have "\<dots> = \<bar>real_of_int (round_half_even ?r) - ?r\<bar> * pow2 ?u"
    using p by (simp only: abs_mult abs_of_pos)
  also have "\<dots> \<le> 1 / 2 * pow2 ?u"
    using round_half_even_error[of ?r] p by (intro mult_right_mono) simp_all
  finally show ?thesis by simp
qed

lemma pow2_powi: "pow2 k = 2 powi k"
  by (simp add: pow2_def power_int_def power_inverse[symmetric] inverse_eq_divide power_one_over)

lemma round_half_even_le: "r \<le> real_of_int k \<Longrightarrow> round_half_even r \<le> k"
  unfolding round_half_even_def Let_def by (auto; linarith)

lemma b64_round_significand:
  assumes "x \<noteq> 0"
  shows "round_half_even (\<bar>x\<bar> / pow2 (max (- 1074) (binade \<bar>x\<bar> - 52))) \<le> 2 ^ 53"
proof -
  let ?e = "binade \<bar>x\<bar>"
  let ?u = "max (- 1074) (?e - 52)"
  have pos: "0 < \<bar>x\<bar>" using assms by simp
  have "\<bar>x\<bar> < pow2 (?e + 1)"
    using binade_bounds[OF pos] by simp
  also have "\<dots> = pow2 (?e - 52) * 2 ^ 53"
  proof -
    have "?e + 1 = (?e - 52) + 53" by simp
    then have "pow2 (?e + 1) = 2 powi ((?e - 52) + 53)"
      by (simp only: pow2_powi)
    also have "\<dots> = 2 powi (?e - 52) * 2 powi 53"
      by (rule power_int_add) simp
    finally show ?thesis by (simp add: pow2_powi)
  qed
  also have "\<dots> \<le> pow2 ?u * 2 ^ 53"
    unfolding pow2_powi by (intro mult_right_mono power_int_increasing) simp_all
  finally have "\<bar>x\<bar> / pow2 ?u \<le> 2 ^ 53"
    using pow2_pos[of ?u] by (simp add: field_simps)
  then have "\<bar>x\<bar> / pow2 ?u \<le> real_of_int (2 ^ 53)"
    by simp
  then show ?thesis
    by (rule round_half_even_le)
qed

lemma format_timestamp_digits:
  assumes "0 \<le> t"
  shows "format_0w 2 ((t div (1000 * 60 * 60)) mod 100) @ '':'' @ format_0w 2 ((t div (1000 * 60)) mod 60)
           @ '':'' @ format_0w 2 ((t div 1000) mod 60) @ '','' @ format_0w 3 (t mod 1000) =
         (let hh = nat ((t div 3600000) mod 100);
              mm = nat ((t div 60000) mod 60);
              ss = nat ((t div 1000) mod 60);
              mmm = nat (t mod 1000)
          in [digit_char (hh div 10), digit_char (hh mod 10), CHR '':'',
              digit_char (mm div 10), digit_char (mm mod 10), CHR '':'',
              digit_char (ss div 10), digit_char (ss mod 10), CHR '','',
              digit_char (mmm div 100), digit_char (mmm div 10 mod 10), digit_char (mmm mod 10)])"
proof -
  have h: "format_0w 2 ((t div 3600000) mod 100) =
             [digit_char (nat ((t div 3600000) mod 100) div 10), digit_char (nat ((t div 3600000) mod 100) mod 10)]"
    by (rule format_0w_2) simp_all
  have m: "format_0w 2 ((t div 60000) mod 60) =
             [digit_char (nat ((t div 60000) mod 60) div 10), digit_char (nat ((t div 60000) mod 60) mod 10)]"
    by (rule format_0w_2) (simp, rule less_trans[OF pos_mod_bound], simp_all)
  have s: "format_0w 2 ((t div 1000) mod 60) =
             [digit_char (nat ((t div 1000) mod 60) div 10), digit_char (nat ((t div 1000) mod 60) mod 10)]"
    by (rule format_0w_2) (simp, rule less_trans[OF pos_mod_bound], simp_all)
  have ms: "format_0w 3 (t mod 1000) =
             [digit_char (nat (t mod 1000) div 100), digit_char (nat (t mod 1000) div 10 mod 10),
              digit_char (nat (t mod 1000) mod 10)]"
    by (rule format_0w_3) simp_all
  show ?thesis
    using h m s ms by (simp add: Let_def)
qed

text \<open>
  Claim C9, amended. For a non-negative timestamp \<open>ts\<close> in seconds whose product with
  1000 does not overflow, the formatter returns the twelve characters \<open>HH:MM:SS,mmm\<close>
  computed from \<open>total_ms\<close>, the integer part of the binary64 product \<open>ts * 1000\<close>:
  \<open>mmm\<close> is \<open>total_ms mod 1000\<close> in three digits, \<open>SS\<close> is
  \<open>(total_ms div 1000) mod 60\<close>, \<open>MM\<close> is \<open>(total_ms div 60000) mod 60\<close> and \<open>HH\<close>
  is \<open>(total_ms div 3600000) mod 100\<close>, each in two digits with leading zeros; the hours
  wrap modulo 100. Where the binary64 product is the exact product, these are
  \<open>floor (ts * 1000) mod 1000\<close>, \<open>floor ts mod 60\<close>, \<open>floor (ts / 60) mod 60\<close> and
  \<open>floor (ts / 3600) mod 100\<close>.
\<close>

theorem C9_format_timestamp:
  assumes nonneg: "0 \<le> ts"
    and finite: "ts * 1000 < 2 ^ 1024 - 2 ^ 970"
  shows "format_timestamp ts =
           (let total_ms = \<lfloor>fmul ts 1000\<rfloor>;
                hh = nat ((total_ms div 3600000) mod 100);
                mm = nat ((total_ms div 60000) mod 60);
                ss = nat ((total_ms div 1000) mod 60);
                mmm = nat (total_ms mod 1000)
            in [digit_char (hh div 10), digit_char (hh mod 10), CHR '':'',
                digit_char (mm div 10), digit_char (mm mod 10), CHR '':'',
                digit_char (ss div 10), digit_char (ss mod 10), CHR '','',
                digit_char (mmm div 100), digit_char (mmm div 10 mod 10), digit_char (mmm mod 10)])
       \<and> (fmul ts 1000 = ts * 1000 \<longrightarrow>
            format_timestamp ts =
              (let hh = nat (\<lfloor>ts / 3600\<rfloor> mod 100);
                   mm = nat (\<lfloor>ts / 60\<rfloor> mod 60);
                   ss = nat (\<lfloor>ts\<rfloor> mod 60);
                   mmm = nat (\<lfloor>ts * 1000\<rfloor> mod 1000)
               in [digit_char (hh div 10), digit_char (hh mod 10), CHR '':'',
                   digit_char (mm div 10), digit_char (mm mod 10), CHR '':'',
                   digit_char (ss div 10), digit_char (ss mod 10), CHR '','',
                   digit_char (mmm div 100), digit_char (mmm div 10 mod 10), digit_char (mmm mod 10)]))"
proof -
  have "0 \<le> fmul ts 1000"
    unfolding fmul_def using nonneg by (intro b64_round_nonneg) simp
  then have t: "py_int (fmul ts 1000) = \<lfloor>fmul ts 1000\<rfloor>" and t0: "0 \<le> \<lfloor>fmul ts 1000\<rfloor>"
    by (simp_all add: py_int_def)
  have rounded: "format_timestamp ts =
           (let total_ms = \<lfloor>fmul ts 1000\<rfloor>;
                hh = nat ((total_ms div 3600000) mod 100);
                mm = nat ((total_ms div 60000) mod 60);
                ss = nat ((total_ms div 1000) mod 60);
                mmm = nat (total_ms mod 1000)
            in [digit_char (hh div 10), digit_char (hh mod 10), CHR '':'',
                digit_char (mm div 10), digit_char (mm mod 10), CHR '':'',
                digit_char (ss div 10), digit_char (ss mod 10), CHR '','',
                digit_char (mmm div 100), digit_char (mmm div 10 mod 10), digit_char (mmm mod 10)])"
    using format_timestamp_digits[OF t0]
    by (simp add: format_timestamp_def t Let_def)
  have exact: "format_timestamp ts =
              (let hh = nat (\<lfloor>ts / 3600\<rfloor> mod 100);
                   mm = nat (\<lfloor>ts / 60\<rfloor> mod 60);
                   ss = nat (\<lfloor>ts\<rfloor> mod 60);
                   mmm = nat (\<lfloor>ts * 1000\<rfloor> mod 1000)
               in [digit_char (hh div 10), digit_char (hh mod 10), CHR '':'',
                   digit_char (mm div 10), digit_char (mm mod 10), CHR '':'',
                   digit_char (ss div 10), digit_char (ss mod 10), CHR '','',
                   digit_char (mmm div 100), digit_char (mmm div 10 mod 10), digit_char (mmm mod 10)])"
    if "fmul ts 1000 = ts * 1000"
    using rounded floor_ms_div[of ts] unfolding that by (simp add: Let_def)
  from rounded exact show ?thesis by blast
qed

lemmas b64_eval = fmul_def b64_round_def binade_def round_half_even_def pow2_def Let_def

theorem C9_format_timestamp_witness:
  "(0::real) \<le> 363661.5 \<and> (363661.5::real) * 1000 < 2 ^ 1024 - 2 ^ 970
   \<and> fmul 363661.5 1000 = 363661.5 * 1000
   \<and> format_timestamp 363661.5 = ''01:01:01,500''"
proof -
  have p: "fmul 363661.5 1000 = 363661.5 * 1000"
    by (simp add: b64_eval)
  have r: "(363661.5::real) * 1000 < 2 ^ 1024 - 2 ^ 970"
    by simp
  from C9_format_timestamp[of "363661.5", OF _ r] p
  show ?thesis
    using r by (simp add: digit_char_def)
qed

text \<open>
  At the binary64 value nearest to 4.35 the exact product is just below 4350, so
  \<open>floor (ts * 1000) mod 1000\<close> is 349, while the rounded product is 4350 and the
  formatter prints 350. The same happens at a clock reading: 122 against 123.
\<close>

theorem C9_counterexample:
  "0 \<le> ts_4_35 \<and> \<lfloor>ts_4_35 * 1000\<rfloor> mod 1000 = 349
   \<and> format_timestamp ts_4_35 = ''00:00:04,350''
   \<and> 0 \<le> ts_epoch \<and> \<lfloor>ts_epoch * 1000\<rfloor> mod 1000 = 122
   \<and> format_timestamp ts_epoch = ''27:46:40,123''"
  by (simp add: ts_4_35_def ts_epoch_def format_timestamp_def py_int_def b64_eval format_0w_def
        zfill_def str_nat.simps digit_char_def)

subsection \<open>Subtitle file\<close>

text \<open>
  Claim C10. Constructing the writer leaves the file at the given path empty, whatever it
  held before, and every later \<open>write_entry\<close> only appends its entry to the content that
  is there; so the first entry written after construction is the whole content of the file.
\<close>

theorem C10_init_truncates_then_appends:
  "snd (SRTWriter_init fname fs) fname = Some []
   \<and> filename (fst (SRTWriter_init fname fs)) = fname
   \<and> write_entry w idx s e text fs' (filename w) =
       Some ((case fs' (filename w) of None \<Rightarrow> [] | Some old \<Rightarrow> old) @ entry_text idx s e text)
   \<and> write_entry (fst (SRTWriter_init fname fs)) idx s e text (snd (SRTWriter_init fname fs)) fname =
       Some (entry_text idx s e text)"
  by (simp add: SRTWriter_init_def write_entry_def append_file_def)

end
